theory Spec2Isabelle
  imports Main "HOL-Library.Word"
begin

section \<open>The mapshot HTTP server (cmd/serve.go)\<close>

text \<open>
  A shallow embedding of \<^verbatim>\<open>cmd/serve.go\<close>: the scan for mapshots (\<^verbatim>\<open>findShots\<close>), the
  construction and publication of the request multiplexer (\<^verbatim>\<open>Server.updateMux\<close>,
  \<^verbatim>\<open>newServer\<close>), the periodic rescan (\<^verbatim>\<open>Server.watch\<close>), request dispatch
  (\<^verbatim>\<open>Server.ServeHTTP\<close>) and the command body (\<^verbatim>\<open>cmdServe\<close>).

  The Go standard library and the operating system are not part of the program. What the
  program asks of them is taken as data: the record \<open>golib\<close> holds the platform's
  \<^verbatim>\<open>path/filepath\<close> functions and the string quoting of \<^verbatim>\<open>encoding/json\<close>; the record
  \<open>filesystem\<close> holds what \<^verbatim>\<open>filepath.EvalSymlinks\<close> and \<^verbatim>\<open>filepath.Walk\<close> observe. The
  mutex of \<open>Server\<close> is not modelled: the model runs one operation at a time.
\<close>

subsection \<open>Go values\<close>

text \<open>
  A Go \<^verbatim>\<open>error\<close>: an error of the operating system or the library, or the wrapping that
  \<^verbatim>\<open>fmt.Errorf("unable to eval symlinks for %s: %w", baseDir, err)\<close> builds.
\<close>

datatype error = OSError string | EvalSymlinksError string error

text \<open>
  A Go slice. \<open>None\<close> is the nil slice, which \<^verbatim>\<open>var shots []ShotInfo\<close> declares;
  \<^verbatim>\<open>append\<close> on it allocates, so its result is never nil.
\<close>

type_synonym 'a slice = "'a list option"

definition append_slice :: "'a slice \<Rightarrow> 'a \<Rightarrow> 'a slice" where
  "append_slice s x = (case s of None \<Rightarrow> Some [x] | Some xs \<Rightarrow> Some (xs @ [x]))"

text \<open>The elements a \<^verbatim>\<open>range\<close> loop visits: none for the nil slice.\<close>

definition elems :: "'a slice \<Rightarrow> 'a list" where
  "elems s = (case s of None \<Rightarrow> [] | Some xs \<Rightarrow> xs)"

record ShotInfo =
  Name :: string
  Path :: string
  fsPath :: string

subsection \<open>The library and the filesystem\<close>

text \<open>
  \<open>Separator\<close>, \<open>Base\<close>, \<open>Dir\<close> and \<open>Rel\<close> are those of \<^verbatim>\<open>path/filepath\<close> on the platform
  the program runs on; \<open>Rel\<close> returns Go's pair of a string and an error. \<open>jsonString\<close> is
  the quoted and escaped JSON string literal that \<^verbatim>\<open>encoding/json\<close> writes for a Go string.
\<close>

record golib =
  Separator :: char
  Base :: "string \<Rightarrow> string"
  Dir :: "string \<Rightarrow> string"
  Rel :: "string \<Rightarrow> string \<Rightarrow> string \<times> error option"
  jsonString :: "string \<Rightarrow> string"

text \<open>
  \<^verbatim>\<open>filepath.ToSlash\<close>: the identity where the separator is a slash, otherwise every
  separator becomes a slash.
\<close>

definition ToSlash :: "golib \<Rightarrow> string \<Rightarrow> string" where
  "ToSlash lib path =
     (if Separator lib = CHR ''/'' then path
      else map (\<lambda>c. if c = Separator lib then CHR ''/'' else c) path)"

text \<open>
  What \<^verbatim>\<open>os.FileInfo\<close> says about the kind of an entry. The callback of \<^verbatim>\<open>findShots\<close>
  receives it and never reads it.
\<close>

datatype file_kind = Regular | Directory | Symlink | Special

text \<open>
  One call that \<^verbatim>\<open>filepath.Walk\<close> makes to its callback: the path, the file information
  (nil when it could not be read) and the error met at that entry, if any.
\<close>

record walk_entry =
  we_path :: string
  we_info :: "file_kind option"
  we_err :: "error option"

text \<open>
  The state of the filesystem as the scan observes it: the answer of
  \<^verbatim>\<open>filepath.EvalSymlinks\<close> for a directory, and for a root the calls that \<^verbatim>\<open>filepath.Walk\<close>
  makes, in its (lexical) order, as long as the callback returns nil.
\<close>

record filesystem =
  EvalSymlinks :: "string \<Rightarrow> string \<times> error option"
  WalkCalls :: "string \<Rightarrow> walk_entry list"

text \<open>The lines written through \<^verbatim>\<open>glog\<close>, by call site.\<close>

datatype log_entry =
    Info_looking string
  | Info_found string
  | Info_rel_failed string error
  | Error_find_failed string error
  | Error_json_failed error

text \<open>What is outside the server: the filesystem and the log written so far.\<close>

record world =
  fsys :: filesystem
  glog :: "log_entry list"

definition glog_write :: "log_entry \<Rightarrow> world \<Rightarrow> world" where
  "glog_write l w = w\<lparr>glog := glog w @ [l]\<rparr>"

text \<open>
  \<^verbatim>\<open>filepath.Walk\<close>: the callback is called on each entry in turn; the first error it
  returns stops the walk and is the walk's result. (The callback of \<^verbatim>\<open>findShots\<close> returns
  only errors that the walk handed to it, so \<^verbatim>\<open>filepath.SkipDir\<close> does not occur.)
\<close>

fun Walk :: "walk_entry list \<Rightarrow> (walk_entry \<Rightarrow> 's \<Rightarrow> error option \<times> 's) \<Rightarrow> 's \<Rightarrow> error option \<times> 's" where
  "Walk [] fn s = (None, s)"
| "Walk (e # es) fn s =
     (case fn e s of
        (Some err, s') \<Rightarrow> (Some err, s')
      | (None, s') \<Rightarrow> Walk es fn s')"

subsection \<open>findShots\<close>

text \<open>
  The function literal passed to \<^verbatim>\<open>filepath.Walk\<close>. It closes over \<^verbatim>\<open>realDir\<close> and over
  the variable \<^verbatim>\<open>shots\<close>, which it updates: the state it threads is \<^verbatim>\<open>shots\<close> and the world
  (for the log).
\<close>

definition walkFn :: "golib \<Rightarrow> string \<Rightarrow> walk_entry \<Rightarrow> ShotInfo slice \<times> world \<Rightarrow> error option \<times> (ShotInfo slice \<times> world)" where
  "walkFn lib realDir e st =
     (case st of (shots, w) \<Rightarrow>
        (case we_err e of
           Some err \<Rightarrow> (Some err, (shots, w))
         | None \<Rightarrow>
             if Base lib (we_path e) \<noteq> ''mapshot.json'' then (None, (shots, w))
             else
               let w1 = glog_write (Info_found (we_path e)) w;
                   shotPath = Dir lib (we_path e)
               in (case Rel lib realDir shotPath of
                     (name, Some err) \<Rightarrow> (None, (shots, glog_write (Info_rel_failed shotPath err) w1))
                   | (name, None) \<Rightarrow>
                       (None,
                        (append_slice shots
                           \<lparr>Name = name, Path = ''/data/'' @ ToSlash lib name @ ''/'', fsPath = shotPath\<rparr>,
                         w1)))))"

definition findShots :: "golib \<Rightarrow> string \<Rightarrow> world \<Rightarrow> (ShotInfo slice \<times> error option) \<times> world" where
  "findShots lib baseDir w =
     (case EvalSymlinks (fsys w) baseDir of
        (realDir, Some err) \<Rightarrow> ((None, Some (EvalSymlinksError baseDir err)), w)
      | (realDir, None) \<Rightarrow>
          let w1 = glog_write (Info_looking realDir) w
          in (case Walk (WalkCalls (fsys w1) realDir) (walkFn lib realDir) (None, w1) of
                (Some err, (shots, w2)) \<Rightarrow> ((None, Some err), w2)
              | (None, (shots, w2)) \<Rightarrow> ((shots, None), w2)))"

subsection \<open>JSON, as encoding/json writes the listing\<close>

datatype json = JNull | JString string | JArray "json list" | JObject "(string \<times> json) list"

fun commas :: "string list \<Rightarrow> string" where
  "commas [] = []"
| "commas [x] = x"
| "commas (x # y # ys) = x @ '','' @ commas (y # ys)"

text \<open>The bytes of a JSON value; \<open>q\<close> quotes a string.\<close>

fun encode :: "(string \<Rightarrow> string) \<Rightarrow> json \<Rightarrow> string" where
  "encode q JNull = ''null''"
| "encode q (JString s) = q s"
| "encode q (JArray vs) = ''['' @ commas (map (encode q) vs) @ '']''"
| "encode q (JObject kvs) = ''{'' @ commas (map (\<lambda>(k, v). q k @ '':'' @ encode q v) kvs) @ ''}''"

text \<open>
  The JSON value of a \<open>ShotInfo\<close>, by its struct tags: \<^verbatim>\<open>Name\<close> is \<^verbatim>\<open>json:"name,omitempty"\<close>,
  \<^verbatim>\<open>Path\<close> is \<^verbatim>\<open>json:"path,omitempty"\<close> (an empty string is left out), and \<^verbatim>\<open>fsPath\<close> is
  unexported, so \<^verbatim>\<open>encoding/json\<close> never sees it.
\<close>

definition ShotInfo_json :: "ShotInfo \<Rightarrow> json" where
  "ShotInfo_json shot =
     JObject ((if Name shot = [] then [] else [(''name'', JString (Name shot))]) @
              (if Path shot = [] then [] else [(''path'', JString (Path shot))]))"

text \<open>A nil slice is written as \<^verbatim>\<open>null\<close>, any other slice as an array.\<close>

definition shots_json :: "ShotInfo slice \<Rightarrow> json" where
  "shots_json shots = (case shots of None \<Rightarrow> JNull | Some xs \<Rightarrow> JArray (map ShotInfo_json xs))"

text \<open>
  \<^verbatim>\<open>json.Marshal\<close>, with Go's pair of the bytes and an error. On the values built here
  (strings, slices and maps of them) it reports no error.
\<close>

definition json_Marshal :: "golib \<Rightarrow> json \<Rightarrow> char slice \<times> error option" where
  "json_Marshal lib v = (Some (encode (jsonString lib) v), None)"

subsection \<open>net/http: handlers and the request multiplexer\<close>

text \<open>
  The handlers the server builds. \<open>Frontend h\<close> is the handler given to \<^verbatim>\<open>newServer\<close>
  (\<^verbatim>\<open>cmdServe\<close> passes \<^verbatim>\<open>builtinFrontendMux\<close>, which \<^verbatim>\<open>init\<close> allocates: it is never nil);
  \<open>ShotsJSON data\<close> is the function literal registered at \<^verbatim>\<open>/shots.json\<close>, closing over
  \<^verbatim>\<open>data\<close>.
\<close>

datatype 'h Handler =
    Frontend 'h
  | FileServer string
  | StripPrefix string "'h Handler"
  | ShotsJSON "char slice"

text \<open>
  What serving a request path with a handler does: write a response (header and body),
  serve a file below a directory, hand the request to the frontend handler, or answer
  404.
\<close>

datatype 'h served =
    Written "(string \<times> string) list" string
  | ServedFile string string
  | Delegated 'h string
  | Redirected string
  | NotFound

fun serveHandler :: "'h Handler \<Rightarrow> string \<Rightarrow> 'h served" where
  "serveHandler (Frontend h) p = Delegated h p"
| "serveHandler (FileServer d) p = ServedFile d p"
| "serveHandler (StripPrefix pre h) p =
     (if pre = [] then serveHandler h p
      else if take (length pre) p = pre then serveHandler h (drop (length pre) p)
      else NotFound)"
| "serveHandler (ShotsJSON data) p = Written [(''Content-Type'', ''application/json'')] (elems data)"

datatype panic = MultipleRegistrations string | InvalidPattern | NilPointerDereference

text \<open>
  \<^verbatim>\<open>http.ServeMux\<close>: the registered patterns with their handlers, in registration order.
  \<^verbatim>\<open>Handle\<close> panics on an empty pattern and on a pattern registered before.
\<close>

type_synonym 'h ServeMux = "(string \<times> 'h Handler) list"

definition NewServeMux :: "'h ServeMux" where
  "NewServeMux = []"

definition Handle :: "string \<Rightarrow> 'h Handler \<Rightarrow> 'h ServeMux \<Rightarrow> panic + 'h ServeMux" where
  "Handle pattern h m =
     (if pattern = [] then Inl InvalidPattern
      else if pattern \<in> set (map fst m) then Inl (MultipleRegistrations pattern)
      else Inr (m @ [(pattern, h)]))"

text \<open>
  \<^verbatim>\<open>ServeMux.match\<close>: an exact match first, otherwise the longest pattern ending in a slash
  that is a prefix of the path.
\<close>

fun longest_prefix :: "'h ServeMux \<Rightarrow> string \<Rightarrow> (string \<times> 'h Handler) option \<Rightarrow> (string \<times> 'h Handler) option" where
  "longest_prefix [] path best = best"
| "longest_prefix ((pat, h) # m) path best =
     longest_prefix m path
       (if pat \<noteq> [] \<and> last pat = CHR ''/'' \<and> take (length pat) path = pat \<and>
           (case best of None \<Rightarrow> True | Some (bp, bh) \<Rightarrow> length bp < length pat)
        then Some (pat, h) else best)"

definition ServeMux_match :: "'h ServeMux \<Rightarrow> string \<Rightarrow> 'h Handler option" where
  "ServeMux_match m path =
     (case map_of m path of
        Some h \<Rightarrow> Some h
      | None \<Rightarrow> map_option snd (longest_prefix m path None))"

text \<open>
  \<^verbatim>\<open>ServeMux.ServeHTTP\<close> for a request whose path is already clean: a path that is not
  registered while the path followed by a slash is, is redirected there; otherwise the
  matching handler serves, and no match is a 404.
\<close>

definition ServeMux_ServeHTTP :: "'h ServeMux \<Rightarrow> string \<Rightarrow> 'h served" where
  "ServeMux_ServeHTTP m path =
     (if map_of m path = None \<and> map_of m (path @ ''/'') \<noteq> None then Redirected (path @ ''/'')
      else case ServeMux_match m path of None \<Rightarrow> NotFound | Some h \<Rightarrow> serveHandler h path)"

subsection \<open>Server\<close>

text \<open>The field \<open>mux\<close> is a pointer: \<open>None\<close> is nil.\<close>

record 'h Server =
  baseDir :: string
  frontendMux :: 'h
  mux :: "'h ServeMux option"

text \<open>The loop of \<^verbatim>\<open>updateMux\<close> over the shots, one \<^verbatim>\<open>mux.Handle\<close> each.\<close>

fun handleShots :: "ShotInfo list \<Rightarrow> 'h ServeMux \<Rightarrow> panic + 'h ServeMux" where
  "handleShots [] m = Inr m"
| "handleShots (shot # rest) m =
     (case Handle (Path shot) (StripPrefix (Path shot) (FileServer (fsPath shot))) m of
        Inl p \<Rightarrow> Inl p
      | Inr m' \<Rightarrow> handleShots rest m')"

text \<open>
  The part of \<^verbatim>\<open>updateMux\<close> that builds the new multiplexer from \<^verbatim>\<open>shots\<close> (from
  \<^verbatim>\<open>http.NewServeMux()\<close> to the registration of \<^verbatim>\<open>/map/\<close>).
\<close>

definition buildMux :: "golib \<Rightarrow> 'h \<Rightarrow> ShotInfo slice \<Rightarrow> world \<Rightarrow> panic + ('h ServeMux \<times> world)" where
  "buildMux lib fm shots w =
     (case handleShots (elems shots) NewServeMux of
        Inl p \<Rightarrow> Inl p
      | Inr m1 \<Rightarrow>
          (case json_Marshal lib (JObject [(''all'', shots_json shots)]) of (data0, err) \<Rightarrow>
             (case (case err of
                      Some e \<Rightarrow> (None, glog_write (Error_json_failed e) w)
                    | None \<Rightarrow> (data0, w)) of (data, w') \<Rightarrow>
                (case Handle ''/'' (Frontend fm) m1 of
                   Inl p \<Rightarrow> Inl p
                 | Inr m2 \<Rightarrow>
                     (case Handle ''/shots.json'' (ShotsJSON data) m2 of
                        Inl p \<Rightarrow> Inl p
                      | Inr m3 \<Rightarrow>
                          (case Handle ''/map/'' (StripPrefix ''/map'' (Frontend fm)) m3 of
                             Inl p \<Rightarrow> Inl p
                           | Inr m4 \<Rightarrow> Inr (m4, w')))))))"

text \<open>
  \<^verbatim>\<open>Server.updateMux\<close>: scan, build, and publish under the condition
  \<^verbatim>\<open>shots != nil || s.mux == nil\<close>. A panic of \<^verbatim>\<open>mux.Handle\<close> ends the process.
\<close>

definition updateMux :: "golib \<Rightarrow> 'h Server \<Rightarrow> world \<Rightarrow> panic + ('h Server \<times> world)" where
  "updateMux lib s w =
     (case findShots lib (baseDir s) w of ((shots0, err), w1) \<Rightarrow>
        (case (case err of
                 Some e \<Rightarrow> (None, glog_write (Error_find_failed (baseDir s) e) w1)
               | None \<Rightarrow> (shots0, w1)) of (shots, w2) \<Rightarrow>
           (case buildMux lib (frontendMux s) shots w2 of
              Inl p \<Rightarrow> Inl p
            | Inr (m, w3) \<Rightarrow>
                Inr (if shots \<noteq> None \<or> mux s = None then s\<lparr>mux := Some m\<rparr> else s, w3))))"

definition newServer :: "golib \<Rightarrow> string \<Rightarrow> 'h \<Rightarrow> world \<Rightarrow> panic + ('h Server \<times> world)" where
  "newServer lib dir fm w = updateMux lib \<lparr>baseDir = dir, frontendMux = fm, mux = None\<rparr> w"

text \<open>
  \<^verbatim>\<open>Server.ServeHTTP\<close>: read the pointer and call its \<^verbatim>\<open>ServeHTTP\<close>, which dereferences
  it.
\<close>

definition ServeHTTP :: "'h Server \<Rightarrow> string \<Rightarrow> panic + 'h served" where
  "ServeHTTP s path =
     (case mux s of
        None \<Rightarrow> Inl NilPointerDereference
      | Some m \<Rightarrow> Inr (ServeMux_ServeHTTP m path))"

subsection \<open>watch\<close>

text \<open>
  \<^verbatim>\<open>time.Duration(8000+rand.Int63n(2000)) * time.Millisecond\<close> on \<^verbatim>\<open>int64\<close>, in
  nanoseconds; \<open>r\<close> is what \<^verbatim>\<open>rand.Int63n(2000)\<close> returned.
\<close>

type_synonym int64 = "64 word"

definition Millisecond :: int64 where
  "Millisecond = 1000000"

definition watch_delay :: "int64 \<Rightarrow> int64" where
  "watch_delay r = (8000 + r) * Millisecond"

text \<open>
  One pass through the \<^verbatim>\<open>select\<close> of the loop: what \<^verbatim>\<open>rand.Int63n(2000)\<close> returned, and
  which channel was ready first: the timer, with the filesystem as it is at that moment,
  or \<^verbatim>\<open>ctx.Done()\<close>.
\<close>

datatype wake = TimeAfter filesystem | CtxDone

datatype status = Running | Returned | Crashed panic

text \<open>
  \<^verbatim>\<open>Server.watch\<close> along a finite sequence of wake-ups. The result tells whether the loop
  has returned, is still running (waiting for the next wake-up) or has ended the process
  by a panic, with the delays it slept for, the server and the world.
\<close>

fun watch :: "golib \<Rightarrow> (int64 \<times> wake) list \<Rightarrow> 'h Server \<Rightarrow> world \<Rightarrow> status \<times> int64 list \<times> 'h Server \<times> world" where
  "watch lib [] s w = (Running, [], s, w)"
| "watch lib ((r, CtxDone) # evs) s w = (Returned, [watch_delay r], s, w)"
| "watch lib ((r, TimeAfter fs) # evs) s w =
     (case updateMux lib s (w\<lparr>fsys := fs\<rparr>) of
        Inl p \<Rightarrow> (Crashed p, [watch_delay r], s, w\<lparr>fsys := fs\<rparr>)
      | Inr (s', w') \<Rightarrow>
          (case watch lib evs s' w' of (st, ds, s'', w'') \<Rightarrow> (st, watch_delay r # ds, s'', w'')))"

subsection \<open>cmdServe\<close>

text \<open>
  The \<^verbatim>\<open>RunE\<close> of \<^verbatim>\<open>cmdServe\<close>, up to the moment the listener serves. The package
  \<^verbatim>\<open>factorio\<close> is outside this file: \<open>factorio\<close> is the script-output directory that
  \<^verbatim>\<open>factorio.New\<close> leads to, with its error; \<open>listen\<close> is the error with which
  \<^verbatim>\<open>http.ListenAndServe\<close> fails to bind, if it does. The goroutine \<^verbatim>\<open>s.watch\<close> runs
  \<open>watch\<close> from the server that \<^verbatim>\<open>newServer\<close> returned.
\<close>

datatype 'h startup = ReturnedError error | Panicked panic | Listening "'h Server" world

definition cmdServe :: "golib \<Rightarrow> string \<times> error option \<Rightarrow> 'h \<Rightarrow> error option \<Rightarrow> world \<Rightarrow> 'h startup" where
  "cmdServe lib factorio fm listen w =
     (case factorio of
        (dir, Some err) \<Rightarrow> ReturnedError err
      | (dir, None) \<Rightarrow>
          (case newServer lib dir fm w of
             Inl p \<Rightarrow> Panicked p
           | Inr (s, w') \<Rightarrow>
               (case listen of
                  Some err \<Rightarrow> ReturnedError err
                | None \<Rightarrow> Listening s w')))"

subsection \<open>Concrete platforms, directory trees and servers\<close>

text \<open>
  A library record for a platform with separator \<open>sep\<close>, for evaluating the model on
  concrete trees. On the paths used below (a root without trailing separator and the clean
  paths beneath it) \<open>lastElem\<close> returns what \<^verbatim>\<open>filepath.Base\<close> returns; on the paths of the
  markers, \<open>parentOf\<close> returns what \<^verbatim>\<open>filepath.Dir\<close> returns and \<open>relTo\<close>, from the root, what
  \<^verbatim>\<open>filepath.Rel\<close> returns; \<open>quoted\<close> is the JSON literal of a string of printable ASCII
  characters other than \<^verbatim>\<open><\<close>, \<^verbatim>\<open>>\<close> and \<^verbatim>\<open>&\<close>. The general theorems below do not use
  them: they hold for every library record.
\<close>

definition lastElem :: "char \<Rightarrow> string \<Rightarrow> string" where
  "lastElem sep p = rev (takeWhile (\<lambda>c. c \<noteq> sep) (rev p))"

definition parentOf :: "char \<Rightarrow> string \<Rightarrow> string" where
  "parentOf sep p = rev (drop 1 (dropWhile (\<lambda>c. c \<noteq> sep) (rev p)))"

definition relTo :: "char \<Rightarrow> string \<Rightarrow> string \<Rightarrow> string \<times> error option" where
  "relTo sep base targ =
     (if targ = base then (''.'', None)
      else if take (length base + 1) targ = base @ [sep] then (drop (length base + 1) targ, None)
      else ([], Some (OSError ''Rel: cannot make the path relative'')))"

definition quoted :: "string \<Rightarrow> string" where
  "quoted s =
     [CHR 0x22] @
     concat (map (\<lambda>c. if c = CHR 0x22 \<or> c = CHR 0x5C then [CHR 0x5C, c] else [c]) s) @
     [CHR 0x22]"

definition platform :: "char \<Rightarrow> golib" where
  "platform sep =
     \<lparr>Separator = sep, Base = lastElem sep, Dir = parentOf sep, Rel = relTo sep, jsonString = quoted\<rparr>"

text \<open>The separator is the slash on Unix and the backslash (\<open>0x5C\<close>) on Windows.\<close>

definition unix :: golib where
  "unix = platform (CHR ''/'')"

definition windows :: golib where
  "windows = platform (CHR 0x5C)"

definition entry :: "string \<Rightarrow> file_kind \<Rightarrow> walk_entry" where
  "entry p k = \<lparr>we_path = p, we_info = Some k, we_err = None\<rparr>"

text \<open>A filesystem without symlinks, whose walk makes the calls \<open>es\<close>.\<close>

definition tree :: "walk_entry list \<Rightarrow> filesystem" where
  "tree es = \<lparr>EvalSymlinks = (\<lambda>d. (d, None)), WalkCalls = (\<lambda>root. es)\<rparr>"

text \<open>Two mapshots below \<^verbatim>\<open>/out\<close>.\<close>

definition fs_two :: filesystem where
  "fs_two = tree
     [entry ''/out'' Directory,
      entry ''/out/worlds'' Directory,
      entry ''/out/worlds/alpha'' Directory,
      entry ''/out/worlds/alpha/mapshot.json'' Regular,
      entry ''/out/worlds/alpha/tile_0_0.png'' Regular,
      entry ''/out/worlds/beta'' Directory,
      entry ''/out/worlds/beta/mapshot.json'' Regular]"

text \<open>The directory \<^verbatim>\<open>/out\<close> exists and is empty.\<close>

definition fs_none :: filesystem where
  "fs_none = tree [entry ''/out'' Directory]"

text \<open>The root cannot be resolved.\<close>

definition fs_gone :: filesystem where
  "fs_gone =
     \<lparr>EvalSymlinks = (\<lambda>d. ([], Some (OSError ''lstat: no such file or directory''))),
      WalkCalls = (\<lambda>root. [])\<rparr>"

text \<open>A mapshot in \<^verbatim>\<open>/out/a\<close>, then a directory that cannot be read.\<close>

definition fs_denied :: filesystem where
  "fs_denied = tree
     [entry ''/out'' Directory,
      entry ''/out/a'' Directory,
      entry ''/out/a/mapshot.json'' Regular,
      \<lparr>we_path = ''/out/b'', we_info = Some Directory,
       we_err = Some (OSError ''open /out/b: permission denied'')\<rparr>,
      entry ''/out/c'' Directory,
      entry ''/out/c/mapshot.json'' Regular]"

text \<open>A directory that is itself named \<^verbatim>\<open>mapshot.json\<close>.\<close>

definition fs_dir_marker :: filesystem where
  "fs_dir_marker = tree
     [entry ''/out'' Directory,
      entry ''/out/a'' Directory,
      entry ''/out/a/mapshot.json'' Directory]"

text \<open>
  A walk that calls back twice for the same marker. Registering the two descriptors
  repeats a pattern, so \<^verbatim>\<open>mux.Handle\<close> panics.
\<close>

definition fs_repeat :: filesystem where
  "fs_repeat = tree
     [entry ''/out'' Directory,
      entry ''/out/a'' Directory,
      entry ''/out/a/mapshot.json'' Regular,
      entry ''/out/a/mapshot.json'' Regular]"

text \<open>A Windows path on drive \<^verbatim>\<open>C:\<close>, each name preceded by a backslash.\<close>

definition winpath :: "string list \<Rightarrow> string" where
  "winpath names = ''C:'' @ concat (map (\<lambda>n. CHR 0x5C # n) names)"

definition fs_win :: filesystem where
  "fs_win = tree
     [entry (winpath [''out'']) Directory,
      entry (winpath [''out'', ''worlds'']) Directory,
      entry (winpath [''out'', ''worlds'', ''alpha'']) Directory,
      entry (winpath [''out'', ''worlds'', ''alpha'', ''mapshot.json'']) Regular]"

text \<open>The world at the start: a filesystem and an empty log.\<close>

definition start :: "filesystem \<Rightarrow> world" where
  "start fs = \<lparr>fsys = fs, glog = []\<rparr>"

text \<open>The two descriptors of \<open>fs_two\<close>, and the server that has published their table.\<close>

definition shots_two :: "ShotInfo list" where
  "shots_two =
     [\<lparr>Name = ''worlds/alpha'', Path = ''/data/worlds/alpha/'', fsPath = ''/out/worlds/alpha''\<rparr>,
      \<lparr>Name = ''worlds/beta'', Path = ''/data/worlds/beta/'', fsPath = ''/out/worlds/beta''\<rparr>]"

definition listing_two :: json where
  "listing_two =
     JObject [(''all'', JArray
       [JObject [(''name'', JString ''worlds/alpha''), (''path'', JString ''/data/worlds/alpha/'')],
        JObject [(''name'', JString ''worlds/beta''), (''path'', JString ''/data/worlds/beta/'')]])]"

definition table_two :: "unit ServeMux" where
  "table_two =
     [(''/data/worlds/alpha/'', StripPrefix ''/data/worlds/alpha/'' (FileServer ''/out/worlds/alpha'')),
      (''/data/worlds/beta/'', StripPrefix ''/data/worlds/beta/'' (FileServer ''/out/worlds/beta'')),
      (''/'', Frontend ()),
      (''/shots.json'', ShotsJSON (Some (encode quoted listing_two))),
      (''/map/'', StripPrefix ''/map'' (Frontend ()))]"

definition server_two :: "unit Server" where
  "server_two = \<lparr>baseDir = ''/out'', frontendMux = (), mux = Some table_two\<rparr>"

text \<open>The table built from no descriptor: the listing is \<^verbatim>\<open>{"all":null}\<close>.\<close>

definition table_nil :: "golib \<Rightarrow> 'h \<Rightarrow> 'h ServeMux" where
  "table_nil lib fm =
     [(''/'', Frontend fm),
      (''/shots.json'', ShotsJSON (Some (encode (jsonString lib) (JObject [(''all'', JNull)])))),
      (''/map/'', StripPrefix ''/map'' (Frontend fm))]"

section \<open>Properties\<close>

subsection \<open>The scan\<close>

lemma elems_append_slice: "elems (append_slice s x) = elems s @ [x]"
  by (simp add: elems_def append_slice_def split: option.splits)

lemma append_slice_not_nil: "append_slice s x \<noteq> None"
  by (simp add: append_slice_def split: option.splits)

lemma walkFn_world:
  "fsys (snd (snd (walkFn lib rd e (sh, w)))) = fsys w"
  by (simp add: walkFn_def glog_write_def Let_def split: option.splits prod.splits)

lemma walkFn_log_free:
  "fst (walkFn lib rd e (sh, w')) = fst (walkFn lib rd e (sh, w)) \<and>
   fst (snd (walkFn lib rd e (sh, w'))) = fst (snd (walkFn lib rd e (sh, w)))"
  by (simp add: walkFn_def Let_def split: option.splits prod.splits)

lemma Walk_world:
  "fsys (snd (snd (Walk es (walkFn lib rd) (sh, w)))) = fsys w"
proof (induction es arbitrary: sh w)
  case Nil
  show ?case by simp
next
  case (Cons e es)
  obtain r sh1 w1 where step: "walkFn lib rd e (sh, w) = (r, (sh1, w1))"
    by (metis prod.exhaust)
  have "fsys w1 = fsys w"
    using walkFn_world [of lib rd e sh w] step by simp
  then show ?case
    using Cons.IH [of sh1 w1] step by (cases r) simp_all
qed

lemma Walk_log_free:
  "fst (Walk es (walkFn lib rd) (sh, w')) = fst (Walk es (walkFn lib rd) (sh, w)) \<and>
   fst (snd (Walk es (walkFn lib rd) (sh, w'))) = fst (snd (Walk es (walkFn lib rd) (sh, w)))"
proof (induction es arbitrary: sh w w')
  case Nil
  show ?case by simp
next
  case (Cons e es)
  obtain r sh1 w1 where step: "walkFn lib rd e (sh, w) = (r, (sh1, w1))"
    by (metis prod.exhaust)
  obtain r' sh1' w1' where step': "walkFn lib rd e (sh, w') = (r', (sh1', w1'))"
    by (metis prod.exhaust)
  have same: "r' = r" "sh1' = sh1"
    using walkFn_log_free [of lib rd e sh w' w] step step' by simp_all
  show ?case
    using Cons.IH [of sh1 w1' w1] step step' same by (cases r) simp_all
qed

lemma findShots_world: "fsys (snd (findShots lib d w)) = fsys w"
proof (cases "EvalSymlinks (fsys w) d")
  case (Pair rd r)
  show ?thesis
  proof (cases r)
    case None
    let ?w1 = "glog_write (Info_looking rd) w"
    obtain x sh w2 where wk: "Walk (WalkCalls (fsys w) rd) (walkFn lib rd) (None, ?w1) = (x, (sh, w2))"
      by (metis prod.exhaust)
    have "fsys w2 = fsys ?w1"
      using Walk_world [of "WalkCalls (fsys w) rd" lib rd None ?w1] wk by simp
    then show ?thesis
      using Pair None wk by (cases x) (simp_all add: findShots_def glog_write_def)
  next
    case (Some err)
    then show ?thesis using Pair by (simp add: findShots_def)
  qed
qed

lemma findShots_log_free:
  assumes "fsys w' = fsys w"
  shows "fst (findShots lib d w') = fst (findShots lib d w)"
proof (cases "EvalSymlinks (fsys w) d")
  case (Pair rd r)
  show ?thesis
  proof (cases r)
    case None
    let ?es = "WalkCalls (fsys w) rd"
    let ?w1 = "glog_write (Info_looking rd) w"
    let ?w1' = "glog_write (Info_looking rd) w'"
    obtain x sh w2 where wk: "Walk ?es (walkFn lib rd) (None, ?w1) = (x, (sh, w2))"
      by (metis prod.exhaust)
    obtain x' sh' w2' where wk': "Walk ?es (walkFn lib rd) (None, ?w1') = (x', (sh', w2'))"
      by (metis prod.exhaust)
    have same: "x' = x" "sh' = sh"
      using Walk_log_free [of ?es lib rd None ?w1' ?w1] wk wk' by simp_all
    show ?thesis
      using Pair None wk wk' same assms
      by (cases x) (simp_all add: findShots_def glog_write_def)
  next
    case (Some err)
    then show ?thesis using Pair assms by (simp add: findShots_def)
  qed
qed

lemma elems_foldl_append_slice: "elems (foldl append_slice sh xs) = elems sh @ xs"
proof (induction xs arbitrary: sh)
  case Nil
  show ?case by simp
next
  case (Cons x xs)
  show ?case
    using Cons.IH [of "append_slice sh x"] by (simp add: elems_append_slice)
qed

lemma foldl_append_slice_nil: "foldl append_slice sh xs = None \<longleftrightarrow> sh = None \<and> xs = []"
  by (induction xs arbitrary: sh) (auto simp: append_slice_not_nil)

lemma walkFn_no_error:
  assumes "we_err e = None"
  shows "fst (walkFn lib rd e (sh, w)) = None \<and>
         fst (snd (walkFn lib rd e (sh, w))) =
           (if Base lib (we_path e) = ''mapshot.json'' \<and> snd (Rel lib rd (Dir lib (we_path e))) = None
            then append_slice sh
                   \<lparr>Name = fst (Rel lib rd (Dir lib (we_path e))),
                    Path = ''/data/'' @ ToSlash lib (fst (Rel lib rd (Dir lib (we_path e)))) @ ''/'',
                    fsPath = Dir lib (we_path e)\<rparr>
            else sh)"
  using assms by (simp add: walkFn_def Let_def split: option.splits prod.splits)

lemma walkFn_error:
  assumes "we_err e = Some err"
  shows "walkFn lib rd e (sh, w) = (Some err, (sh, w))"
  using assms by (simp add: walkFn_def)

lemma Walk_no_error:
  assumes "\<forall>e \<in> set es. we_err e = None"
  shows "fst (Walk es (walkFn lib rd) (sh, w)) = None \<and>
         fst (snd (Walk es (walkFn lib rd) (sh, w))) =
           foldl append_slice sh
             (map (\<lambda>e. \<lparr>Name = fst (Rel lib rd (Dir lib (we_path e))),
                        Path = ''/data/'' @ ToSlash lib (fst (Rel lib rd (Dir lib (we_path e)))) @ ''/'',
                        fsPath = Dir lib (we_path e)\<rparr>)
                (filter (\<lambda>e. Base lib (we_path e) = ''mapshot.json'' \<and>
                              snd (Rel lib rd (Dir lib (we_path e))) = None) es))"
  using assms
proof (induction es arbitrary: sh w)
  case Nil
  show ?case by simp
next
  case (Cons e es)
  obtain r sh1 w1 where step: "walkFn lib rd e (sh, w) = (r, (sh1, w1))"
    by (metis prod.exhaust)
  have e: "we_err e = None" and rest: "\<forall>x \<in> set es. we_err x = None"
    using Cons.prems by simp_all
  have r: "r = None" and sh1: "sh1 =
           (if Base lib (we_path e) = ''mapshot.json'' \<and> snd (Rel lib rd (Dir lib (we_path e))) = None
            then append_slice sh
                   \<lparr>Name = fst (Rel lib rd (Dir lib (we_path e))),
                    Path = ''/data/'' @ ToSlash lib (fst (Rel lib rd (Dir lib (we_path e)))) @ ''/'',
                    fsPath = Dir lib (we_path e)\<rparr>
            else sh)"
    using walkFn_no_error [OF e, of lib rd sh w] step by simp_all
  show ?case
    using Cons.IH [OF rest, of sh1 w1] step r sh1 by simp
qed

lemma Walk_first_error:
  assumes "\<forall>x \<in> set pre. we_err x = None" and "we_err e = Some err"
  shows "fst (Walk (pre @ e # post) (walkFn lib rd) (sh, w)) = Some err"
  using assms(1)
proof (induction pre arbitrary: sh w)
  case Nil
  show ?case using walkFn_error [OF assms(2)] by simp
next
  case (Cons x pre)
  obtain r sh1 w1 where step: "walkFn lib rd x (sh, w) = (r, (sh1, w1))"
    by (metis prod.exhaust)
  have x: "we_err x = None" and rest: "\<forall>y \<in> set pre. we_err y = None"
    using Cons.prems by simp_all
  have r: "r = None"
    using walkFn_no_error [OF x, of lib rd sh w] step by simp
  show ?case
    using Cons.IH [OF rest, of sh1 w1] step r by simp
qed

lemma findShots_error_nil:
  "snd (fst (findShots lib d w)) \<noteq> None \<Longrightarrow> fst (fst (findShots lib d w)) = None"
  by (auto simp: findShots_def Let_def split: prod.splits option.splits)

lemma elems_nil: "elems None = []"
  by (simp add: elems_def)

lemma findShots_unresolved:
  assumes "EvalSymlinks (fsys w) d = (rd, Some err)"
  shows "findShots lib d w = ((None, Some (EvalSymlinksError d err)), w)"
  using assms by (simp add: findShots_def)

lemma findShots_walked:
  assumes "EvalSymlinks (fsys w) d = (rd, None)"
    and "\<forall>e \<in> set (WalkCalls (fsys w) rd). we_err e = None"
  shows "fst (findShots lib d w) =
           (foldl append_slice None
              (map (\<lambda>e. \<lparr>Name = fst (Rel lib rd (Dir lib (we_path e))),
                         Path = ''/data/'' @ ToSlash lib (fst (Rel lib rd (Dir lib (we_path e)))) @ ''/'',
                         fsPath = Dir lib (we_path e)\<rparr>)
                 (filter (\<lambda>e. Base lib (we_path e) = ''mapshot.json'' \<and>
                               snd (Rel lib rd (Dir lib (we_path e))) = None)
                    (WalkCalls (fsys w) rd))),
            None)"
proof -
  let ?w1 = "glog_write (Info_looking rd) w"
  obtain x sh w2 where wk: "Walk (WalkCalls (fsys w) rd) (walkFn lib rd) (None, ?w1) = (x, (sh, w2))"
    by (metis prod.exhaust)
  show ?thesis
    using Walk_no_error [OF assms(2), of lib rd None ?w1] wk assms(1)
    by (simp add: findShots_def glog_write_def)
qed

lemma findShots_aborted:
  assumes "EvalSymlinks (fsys w) d = (rd, None)"
    and "WalkCalls (fsys w) rd = pre @ e # post"
    and "\<forall>x \<in> set pre. we_err x = None"
    and "we_err e = Some err"
  shows "fst (findShots lib d w) = (None, Some err)"
proof -
  let ?w1 = "glog_write (Info_looking rd) w"
  obtain x sh w2 where wk: "Walk (pre @ e # post) (walkFn lib rd) (None, ?w1) = (x, (sh, w2))"
    by (metis prod.exhaust)
  show ?thesis
    using Walk_first_error [OF assms(3,4), of post lib rd None ?w1] wk assms(1,2)
    by (simp add: findShots_def glog_write_def)
qed

lemma first_error_split:
  assumes "\<not> (\<forall>e \<in> set es. we_err e = None)"
  shows "\<exists>pre e post err. es = pre @ e # post \<and> (\<forall>x \<in> set pre. we_err x = None) \<and> we_err e = Some err"
proof -
  from assms have "\<exists>e \<in> set es. we_err e \<noteq> None" by simp
  then obtain pre e post where "es = pre @ e # post" "we_err e \<noteq> None" "\<forall>x \<in> set pre. \<not> we_err x \<noteq> None"
    using split_list_first_prop [of es "\<lambda>e. we_err e \<noteq> None"] by blast
  then show ?thesis by auto
qed

lemma findShots_found:
  assumes "EvalSymlinks (fsys w) d = (rd, None)"
    and "shot \<in> set (elems (fst (fst (findShots lib d w))))"
  shows "\<exists>e \<in> set (WalkCalls (fsys w) rd).
           Base lib (we_path e) = ''mapshot.json'' \<and>
           Rel lib rd (Dir lib (we_path e)) = (Name shot, None) \<and>
           fsPath shot = Dir lib (we_path e) \<and>
           Path shot = ''/data/'' @ ToSlash lib (Name shot) @ ''/''"
proof (cases "\<forall>e \<in> set (WalkCalls (fsys w) rd). we_err e = None")
  case True
  let ?mk = "\<lambda>e. \<lparr>Name = fst (Rel lib rd (Dir lib (we_path e))),
                         Path = ''/data/'' @ ToSlash lib (fst (Rel lib rd (Dir lib (we_path e)))) @ ''/'',
                         fsPath = Dir lib (we_path e)\<rparr>"
  let ?P = "\<lambda>e. Base lib (we_path e) = ''mapshot.json'' \<and>
                               snd (Rel lib rd (Dir lib (we_path e))) = None"
  have "fst (fst (findShots lib d w)) = foldl append_slice None (map ?mk (filter ?P (WalkCalls (fsys w) rd)))"
    using findShots_walked [OF assms(1) True, of lib] by simp
  then have "elems (fst (fst (findShots lib d w))) = map ?mk (filter ?P (WalkCalls (fsys w) rd))"
    by (simp only: elems_foldl_append_slice elems_nil append_Nil)
  then have "shot \<in> set (map ?mk (filter ?P (WalkCalls (fsys w) rd)))"
    using assms(2) by simp
  then obtain e where e: "e \<in> set (WalkCalls (fsys w) rd)"
      "Base lib (we_path e) = ''mapshot.json''" "snd (Rel lib rd (Dir lib (we_path e))) = None"
      "shot = \<lparr>Name = fst (Rel lib rd (Dir lib (we_path e))),
                         Path = ''/data/'' @ ToSlash lib (fst (Rel lib rd (Dir lib (we_path e)))) @ ''/'',
                         fsPath = Dir lib (we_path e)\<rparr>"
    by auto
  have "Rel lib rd (Dir lib (we_path e)) = (Name shot, None)"
    using e(3,4) by (simp add: prod_eq_iff)
  then show ?thesis using e by auto
next
  case False
  then obtain pre e post err where
    "WalkCalls (fsys w) rd = pre @ e # post" "\<forall>x \<in> set pre. we_err x = None" "we_err e = Some err"
    using first_error_split by blast
  then have "fst (findShots lib d w) = (None, Some err)"
    using findShots_aborted [OF assms(1)] by blast
  then show ?thesis using assms(2) by (simp add: elems_def)
qed

lemma ToSlash_unix: "Separator lib = CHR ''/'' \<Longrightarrow> ToSlash lib p = p"
  by (simp add: ToSlash_def)

lemma ToSlash_no_separator: "Separator lib \<noteq> CHR ''/'' \<Longrightarrow> Separator lib \<notin> set (ToSlash lib p)"
  by (auto simp: ToSlash_def)

subsection \<open>Building and publishing the table\<close>

lemma Handle_Inr:
  assumes "Handle p h m = Inr m'"
  shows "m' = m @ [(p, h)]" and "map_of m p = None" and "p \<noteq> []"
  using assms by (auto simp: Handle_def map_of_eq_None_iff split: if_splits)

lemma map_of_snoc_new: "map_of m k = None \<Longrightarrow> map_of (m @ [(k, v)]) k = Some v"
  by (simp add: map_add_def)

lemma map_of_snoc_old: "map_of m k = Some v \<Longrightarrow> map_of (m @ [(k', v')]) k = Some v"
  by (simp add: map_add_def)

lemma buildMux_nil:
  "buildMux lib fm None w =
     Inr (table_nil lib fm, w)"
  by (simp add: buildMux_def elems_def NewServeMux_def json_Marshal_def shots_json_def Handle_def table_nil_def)

lemma buildMux_registers_listing:
  assumes "buildMux lib fm shots w = Inr (m, w')"
  shows "map_of m ''/shots.json'' =
           Some (ShotsJSON (Some (encode (jsonString lib) (JObject [(''all'', shots_json shots)]))))"
proof -
  let ?data = "Some (encode (jsonString lib) (JObject [(''all'', shots_json shots)]))"
  from assms obtain m2 m3 where
    m3: "Handle ''/shots.json'' (ShotsJSON ?data) m2 = Inr m3" and
    m4: "Handle ''/map/'' (StripPrefix ''/map'' (Frontend fm)) m3 = Inr m"
    by (auto simp: buildMux_def json_Marshal_def split: sum.splits)
  have "map_of m3 ''/shots.json'' = Some (ShotsJSON ?data)"
    using Handle_Inr(1,2) [OF m3] map_of_snoc_new by metis
  then show ?thesis
    using Handle_Inr(1) [OF m4] map_of_snoc_old by metis
qed

lemma buildMux_world:
  assumes "buildMux lib fm shots w = Inr (m, w')"
  shows "w' = w"
  using assms
  by (simp add: buildMux_def json_Marshal_def split: sum.splits)

lemma updateMux_scan_failed:
  assumes "snd (fst (findShots lib (baseDir s) w)) = Some e"
  shows "updateMux lib s w =
     Inr (if mux s = None
          then s\<lparr>mux := Some (table_nil lib (frontendMux s))\<rparr>
          else s,
          glog_write (Error_find_failed (baseDir s) e) (snd (findShots lib (baseDir s) w)))"
proof -
  obtain sh w1 where f: "findShots lib (baseDir s) w = ((sh, Some e), w1)"
    using assms by (metis prod.collapse)
  show ?thesis
    by (simp add: updateMux_def f buildMux_nil)
qed

lemma updateMux_scan_nil:
  assumes "fst (findShots lib (baseDir s) w) = (None, None)"
  shows "updateMux lib s w =
     Inr (if mux s = None
          then s\<lparr>mux := Some (table_nil lib (frontendMux s))\<rparr>
          else s,
          snd (findShots lib (baseDir s) w))"
proof -
  obtain w1 where f: "findShots lib (baseDir s) w = ((None, None), w1)"
    using assms by (metis prod.collapse)
  show ?thesis
    by (simp add: updateMux_def f buildMux_nil)
qed

lemma updateMux_Inr:
  assumes "updateMux lib s w = Inr (s', w')"
  shows "mux s' \<noteq> None" and "baseDir s' = baseDir s" and "frontendMux s' = frontendMux s"
  using assms
  by (auto simp: updateMux_def split: prod.splits option.splits sum.splits if_splits)

lemma updateMux_world:
  assumes "updateMux lib s w = Inr (s', w')"
  shows "fsys w' = fsys w"
proof -
  obtain sh err w1 where f: "findShots lib (baseDir s) w = ((sh, err), w1)"
    by (metis prod.exhaust)
  have w1: "fsys w1 = fsys w"
    using findShots_world [of lib "baseDir s" w] f by simp
  show ?thesis
  proof (cases err)
    case None
    then obtain m where "buildMux lib (frontendMux s) sh w1 = Inr (m, w')"
      using assms f by (auto simp: updateMux_def split: sum.splits)
    then show ?thesis using buildMux_world w1 by metis
  next
    case (Some e)
    then obtain m where "buildMux lib (frontendMux s) None (glog_write (Error_find_failed (baseDir s) e) w1) = Inr (m, w')"
      using assms f by (auto simp: updateMux_def split: sum.splits)
    then have "w' = glog_write (Error_find_failed (baseDir s) e) w1"
      using buildMux_world by metis
    then show ?thesis using w1 by (simp add: glog_write_def)
  qed
qed

lemma watch_mux:
  assumes "mux s \<noteq> None"
  shows "mux (fst (snd (snd (watch lib evs s w)))) \<noteq> None"
  using assms
proof (induction evs arbitrary: s w)
  case Nil
  then show ?case by simp
next
  case (Cons ev evs)
  obtain r k where ev: "ev = (r, k)" by (cases ev)
  show ?case
  proof (cases k)
    case CtxDone
    then show ?thesis using ev Cons.prems by simp
  next
    case (TimeAfter fs)
    show ?thesis
    proof (cases "updateMux lib s (w\<lparr>fsys := fs\<rparr>)")
      case (Inl p)
      then show ?thesis using ev TimeAfter Cons.prems by simp
    next
      case (Inr sw)
      obtain s' w' where sw: "sw = (s', w')" by (cases sw)
      have "mux s' \<noteq> None"
        using updateMux_Inr(1) Inr sw by metis
      then have "mux (fst (snd (snd (watch lib evs s' w')))) \<noteq> None"
        by (rule Cons.IH)
      then show ?thesis
        using ev TimeAfter Inr sw by (cases "watch lib evs s' w'") auto
    qed
  qed
qed



lemma watch_returned:
  "fst (watch lib evs s w) = Returned \<Longrightarrow> CtxDone \<in> snd ` set evs"
proof (induction evs arbitrary: s w)
  case Nil
  then show ?case by simp
next
  case (Cons ev evs)
  obtain r k where ev: "ev = (r, k)" by (cases ev)
  show ?case
  proof (cases k)
    case CtxDone
    then show ?thesis using ev by simp
  next
    case (TimeAfter fs)
    show ?thesis
    proof (cases "updateMux lib s (w\<lparr>fsys := fs\<rparr>)")
      case (Inl p)
      then show ?thesis using ev TimeAfter Cons.prems by simp
    next
      case (Inr sw)
      obtain s' w' where sw: "sw = (s', w')" by (cases sw)
      have "fst (watch lib evs s' w') = Returned"
        using Cons.prems ev TimeAfter Inr sw by (cases "watch lib evs s' w'") auto
      then have "CtxDone \<in> snd ` set evs"
        by (rule Cons.IH)
      then show ?thesis by simp
    qed
  qed
qed

lemma watch_failing_scans:
  assumes "mux s \<noteq> None"
    and "\<forall>ev \<in> set evs. \<exists>fs. snd ev = TimeAfter fs \<and>
           snd (fst (findShots lib (baseDir s) \<lparr>fsys = fs, glog = []\<rparr>)) \<noteq> None"
  shows "fst (watch lib evs s w) = Running \<and> fst (snd (snd (watch lib evs s w))) = s"
  using assms(2)
proof (induction evs arbitrary: w)
  case Nil
  show ?case by simp
next
  case (Cons ev evs)
  obtain r fs where ev: "ev = (r, TimeAfter fs)"
    and fails: "snd (fst (findShots lib (baseDir s) \<lparr>fsys = fs, glog = []\<rparr>)) \<noteq> None"
    using Cons.prems by (cases ev) auto
  have "fst (findShots lib (baseDir s) (w\<lparr>fsys := fs\<rparr>)) =
        fst (findShots lib (baseDir s) \<lparr>fsys = fs, glog = []\<rparr>)"
    by (rule findShots_log_free) simp
  then obtain e where e: "snd (fst (findShots lib (baseDir s) (w\<lparr>fsys := fs\<rparr>))) = Some e"
    using fails by auto
  obtain w' where step: "updateMux lib s (w\<lparr>fsys := fs\<rparr>) = Inr (s, w')"
    using updateMux_scan_failed [OF e] assms(1) by simp
  have rest: "\<forall>ev \<in> set evs. \<exists>fs. snd ev = TimeAfter fs \<and>
           snd (fst (findShots lib (baseDir s) \<lparr>fsys = fs, glog = []\<rparr>)) \<noteq> None"
    using Cons.prems by simp
  show ?case
    using Cons.IH [OF rest, of w'] ev step by (cases "watch lib evs s w'") auto
qed

lemma commas_Cons: "commas (map f (x # xs)) = f x @ concat (map (\<lambda>y. '','' @ f y) xs)"
  by (induction xs arbitrary: x) simp_all

lemma glog_glog_write: "glog (glog_write l w) = glog w @ [l]"
  by (simp add: glog_write_def)

lemma updateMux_Inl:
  assumes "updateMux lib s w = Inl p"
  shows "snd (fst (findShots lib (baseDir s) w)) = None \<and>
         fst (fst (findShots lib (baseDir s) w)) \<noteq> None \<and>
         buildMux lib (frontendMux s) (fst (fst (findShots lib (baseDir s) w)))
           (snd (findShots lib (baseDir s) w)) = Inl p"
proof -
  obtain sh err w1 where f: "findShots lib (baseDir s) w = ((sh, err), w1)"
    by (metis prod.exhaust)
  have err: "err = None"
  proof (cases err)
    case None
    then show ?thesis .
  next
    case (Some e)
    then have "updateMux lib s w \<noteq> Inl p"
      using updateMux_scan_failed [of lib s w e] f by simp
    then show ?thesis using assms by simp
  qed
  have b: "buildMux lib (frontendMux s) sh w1 = Inl p"
    using assms f err by (auto simp: updateMux_def split: sum.splits prod.splits)
  have "sh \<noteq> None"
  proof
    assume "sh = None"
    then show False using b by (simp add: buildMux_nil)
  qed
  then show ?thesis using f err b by simp
qed

section \<open>The claims\<close>

subsection \<open>C1: a successful scan and the published table\<close>

text \<open>
  Claim C1 says that every cycle whose scan succeeds, also one that finds no descriptor,
  replaces the published table. The code publishes under \<^verbatim>\<open>shots != nil || s.mux == nil\<close>,
  and a scan that finds no marker returns the nil slice. So: whenever the root resolves,
  the walk meets no error and no entry is named \<^verbatim>\<open>mapshot.json\<close>, the scan succeeds with
  the nil slice, and a server that has a table keeps it; the table built in this cycle is
  dropped. A scan that succeeds with a slice that is not nil does replace the table, by
  the one built from that slice.
\<close>

theorem updateMux_empty_scan_keeps_table:
  "(EvalSymlinks (fsys w) (baseDir s) = (rd, None) \<and>
    (\<forall>e \<in> set (WalkCalls (fsys w) rd). we_err e = None \<and> Base lib (we_path e) \<noteq> ''mapshot.json'') \<and>
    mux s \<noteq> None \<longrightarrow>
      fst (findShots lib (baseDir s) w) = (None, None) \<and>
      map_sum id fst (updateMux lib s w) = Inr s) \<and>
   (findShots lib (baseDir s) w = ((Some xs, None), w1) \<and>
    buildMux lib (frontendMux s) (Some xs) w1 = Inr (m, w2) \<longrightarrow>
      updateMux lib s w = Inr (s\<lparr>mux := Some m\<rparr>, w2))"
proof (intro conjI impI)
  assume a: "EvalSymlinks (fsys w) (baseDir s) = (rd, None) \<and>
    (\<forall>e \<in> set (WalkCalls (fsys w) rd). we_err e = None \<and> Base lib (we_path e) \<noteq> ''mapshot.json'') \<and>
    mux s \<noteq> None"
  have root: "EvalSymlinks (fsys w) (baseDir s) = (rd, None)"
    using a by simp
  have ok: "\<forall>e \<in> set (WalkCalls (fsys w) rd). we_err e = None"
    using a by simp
  have none: "filter (\<lambda>e. Base lib (we_path e) = ''mapshot.json'' \<and>
                     snd (Rel lib rd (Dir lib (we_path e))) = None) (WalkCalls (fsys w) rd) = []"
    using a by (simp add: filter_empty_conv)
  show scan: "fst (findShots lib (baseDir s) w) = (None, None)"
    using findShots_walked [OF root ok, of lib] none by simp
  show "map_sum id fst (updateMux lib s w) = Inr s"
    using updateMux_scan_nil [OF scan] a by simp
next
  assume "findShots lib (baseDir s) w = ((Some xs, None), w1) \<and>
    buildMux lib (frontendMux s) (Some xs) w1 = Inr (m, w2)"
  then show "updateMux lib s w = Inr (s\<lparr>mux := Some m\<rparr>, w2)"
    by (simp add: updateMux_def)
qed

text \<open>
  The server that lists the two mapshots of \<open>fs_two\<close> scans the emptied directory: the
  scan succeeds with no descriptor, the server is unchanged, and \<^verbatim>\<open>/shots.json\<close> goes on
  listing the two mapshots that are gone. In the other direction, the server with the
  table of no descriptor scans \<open>fs_two\<close> and publishes the table of the two mapshots.
\<close>

theorem updateMux_empty_scan_keeps_table_witness:
  "EvalSymlinks (fsys (start fs_none)) (baseDir server_two) = (''/out'', None) \<and>
   list_all (\<lambda>e. we_err e = None \<and> Base unix (we_path e) \<noteq> ''mapshot.json'')
     (WalkCalls (fsys (start fs_none)) ''/out'') \<and>
   mux server_two \<noteq> None \<and>
   fst (findShots unix ''/out'' (start fs_none)) = (None, None) \<and>
   map_sum id fst (updateMux unix server_two (start fs_none)) = Inr server_two \<and>
   ServeHTTP server_two ''/shots.json'' =
     Inr (Written [(''Content-Type'', ''application/json'')] (encode quoted listing_two)) \<and>
   fst (findShots unix ''/out'' (start fs_two)) = (Some shots_two, None) \<and>
   map_sum id fst
     (updateMux unix \<lparr>baseDir = ''/out'', frontendMux = (), mux = Some (table_nil unix ())\<rparr> (start fs_two)) =
     Inr server_two"
proof -
  let ?s = "\<lparr>baseDir = ''/out'', frontendMux = (), mux = Some (table_nil unix ())\<rparr>"
  have h1: "EvalSymlinks (fsys (start fs_none)) (baseDir server_two) = (''/out'', None)"
    by code_simp
  have h2: "\<forall>e \<in> set (WalkCalls (fsys (start fs_none)) ''/out'').
              we_err e = None \<and> Base unix (we_path e) \<noteq> ''mapshot.json''"
    by code_simp
  have h2': "list_all (\<lambda>e. we_err e = None \<and> Base unix (we_path e) \<noteq> ''mapshot.json'')
     (WalkCalls (fsys (start fs_none)) ''/out'')"
    using h2 by (simp only: list_all_iff)
  have h3: "mux server_two \<noteq> None"
    by code_simp
  have hyp: "EvalSymlinks (fsys (start fs_none)) (baseDir server_two) = (''/out'', None) \<and>
    (\<forall>e \<in> set (WalkCalls (fsys (start fs_none)) ''/out'').
       we_err e = None \<and> Base unix (we_path e) \<noteq> ''mapshot.json'') \<and>
    mux server_two \<noteq> None"
    by (intro conjI) (rule h1 h2 h3)+
  have b: "baseDir server_two = ''/out''"
    by code_simp
  have c: "fst (findShots unix (baseDir server_two) (start fs_none)) = (None, None) \<and>
      map_sum id fst (updateMux unix server_two (start fs_none)) = Inr server_two"
    by (rule updateMux_empty_scan_keeps_table [THEN conjunct1, THEN mp, OF hyp])
  have c1: "fst (findShots unix ''/out'' (start fs_none)) = (None, None)"
    using c [THEN conjunct1] unfolding b .
  have served: "ServeHTTP server_two ''/shots.json'' =
     Inr (Written [(''Content-Type'', ''application/json'')] (encode quoted listing_two))"
    by code_simp
  have f: "fst (findShots unix ''/out'' (start fs_two)) = (Some shots_two, None)"
    by code_simp
  have f': "findShots unix (baseDir ?s) (start fs_two) =
              ((Some shots_two, None), snd (findShots unix ''/out'' (start fs_two)))"
    using f by (simp add: prod_eq_iff)
  have "map_sum id fst (buildMux unix () (Some shots_two) (snd (findShots unix ''/out'' (start fs_two)))) =
          Inr table_two"
    by code_simp
  then obtain w2 where
    "buildMux unix (frontendMux ?s) (Some shots_two) (snd (findShots unix ''/out'' (start fs_two))) =
       Inr (table_two, w2)"
    by (cases "buildMux unix () (Some shots_two) (snd (findShots unix ''/out'' (start fs_two)))") auto
  with f' have hyp2: "findShots unix (baseDir ?s) (start fs_two) =
              ((Some shots_two, None), snd (findShots unix ''/out'' (start fs_two))) \<and>
      buildMux unix (frontendMux ?s) (Some shots_two) (snd (findShots unix ''/out'' (start fs_two))) =
       Inr (table_two, w2)"
    by (rule conjI)
  have "updateMux unix ?s (start fs_two) = Inr (?s\<lparr>mux := Some table_two\<rparr>, w2)"
    by (rule updateMux_empty_scan_keeps_table [THEN conjunct2, THEN mp, OF hyp2])
  then have c2: "map_sum id fst (updateMux unix ?s (start fs_two)) = Inr server_two"
    by (simp add: server_two_def)
  show ?thesis
    by (intro conjI) (rule h1 h2' h3 c1 c [THEN conjunct2] served f c2)+
qed

subsection \<open>C2: a failed scan keeps the published table\<close>

text \<open>
  Claim C2: in a cycle whose scan returns an error, a server that has published a table
  is left as it was: \<^verbatim>\<open>updateMux\<close> returns (it does not panic), the server after it is
  the server before it, so the table pointer is the same and \<^verbatim>\<open>/shots.json\<close> is served
  as before.
\<close>

theorem updateMux_failed_scan_keeps_table:
  assumes "snd (fst (findShots lib (baseDir s) w)) \<noteq> None"
    and "mux s \<noteq> None"
  shows "(\<exists>w'. updateMux lib s w = Inr (s, w')) \<and>
         (\<forall>s' w'. updateMux lib s w = Inr (s', w') \<longrightarrow>
            mux s' = mux s \<and> ServeHTTP s' ''/shots.json'' = ServeHTTP s ''/shots.json'')"
proof -
  obtain e where e: "snd (fst (findShots lib (baseDir s) w)) = Some e"
    using assms(1) by auto
  have "updateMux lib s w =
          Inr (s, glog_write (Error_find_failed (baseDir s) e) (snd (findShots lib (baseDir s) w)))"
    using updateMux_scan_failed [OF e] assms(2) by simp
  then show ?thesis by simp
qed

text \<open>The server listing two mapshots, when the root has become unresolvable.\<close>

theorem updateMux_failed_scan_keeps_table_witness:
  "snd (fst (findShots unix (baseDir server_two) (start fs_gone))) \<noteq> None \<and>
   mux server_two \<noteq> None \<and>
   map_sum id fst (updateMux unix server_two (start fs_gone)) = Inr server_two"
proof -
  have h1: "snd (fst (findShots unix (baseDir server_two) (start fs_gone))) \<noteq> None"
    by code_simp
  have h2: "mux server_two \<noteq> None"
    by code_simp
  obtain w' where "updateMux unix server_two (start fs_gone) = Inr (server_two, w')"
    using updateMux_failed_scan_keeps_table [OF h1 h2] by (elim conjE exE)
  then show ?thesis using h1 h2 by simp
qed

subsection \<open>C3: a failed scan is never fatal\<close>

text \<open>
  Claim C3 says that a failure of the first scan, at construction, aborts startup. It
  does not: with an unresolvable root the scan fails, and \<^verbatim>\<open>cmdServe\<close> still reaches the
  listener, with the table built from no descriptor published.
\<close>

theorem initial_scan_failure_counterexample:
  "snd (fst (findShots unix ''/out'' (start fs_gone))) =
     Some (EvalSymlinksError ''/out'' (OSError ''lstat: no such file or directory'')) \<and>
   (case cmdServe unix (''/out'', None) () None (start fs_gone) of
      Listening s w \<Rightarrow> s = \<lparr>baseDir = ''/out'', frontendMux = (), mux = Some (table_nil unix ())\<rparr>
    | ReturnedError err \<Rightarrow> False
    | Panicked p \<Rightarrow> False)"
  by code_simp

text \<open>
  Claim C3, amended: no failure of a scan is fatal, the first one included. When the scan
  at construction fails, \<^verbatim>\<open>newServer\<close> writes the error to the log, publishes the table built
  from no descriptor and returns, and \<^verbatim>\<open>cmdServe\<close> goes on to listen. \<^verbatim>\<open>cmdServe\<close> returns an
  error only when \<^verbatim>\<open>factorio.New\<close> or the listener fails, and it panics only when the first
  scan succeeded with a slice that is not nil and building the table from it panics
  (\<^verbatim>\<open>mux.Handle\<close> on an empty or repeated pattern): never through a failed scan. The
  watcher loop returns only when the context is done; a cycle whose scan fails writes the
  error to the log, changes nothing in the server, and the loop goes on with the next
  wake-up; along wake-ups whose scans all fail it keeps running, with the server unchanged.
\<close>

theorem scan_failure_never_fatal:
  "(snd (fst (findShots lib d w)) = Some e \<longrightarrow>
      newServer lib d fm w =
        Inr (\<lparr>baseDir = d, frontendMux = fm, mux = Some (table_nil lib fm)\<rparr>,
             glog_write (Error_find_failed d e) (snd (findShots lib d w))) \<and>
      cmdServe lib (d, None) fm None w =
        Listening \<lparr>baseDir = d, frontendMux = fm, mux = Some (table_nil lib fm)\<rparr>
          (glog_write (Error_find_failed d e) (snd (findShots lib d w))) \<and>
      glog (glog_write (Error_find_failed d e) (snd (findShots lib d w))) =
        glog (snd (findShots lib d w)) @ [Error_find_failed d e]) \<and>
   (cmdServe lib factorio fm listen w = ReturnedError err \<longrightarrow>
      snd factorio = Some err \<or> listen = Some err) \<and>
   (cmdServe lib factorio fm listen w = Panicked p \<longrightarrow>
      snd factorio = None \<and>
      snd (fst (findShots lib (fst factorio) w)) = None \<and>
      fst (fst (findShots lib (fst factorio) w)) \<noteq> None \<and>
      buildMux lib fm (fst (fst (findShots lib (fst factorio) w)))
        (snd (findShots lib (fst factorio) w)) = Inl p) \<and>
   (fst (watch lib evs s w) = Returned \<longrightarrow> CtxDone \<in> snd ` set evs) \<and>
   (mux s \<noteq> None \<and> snd (fst (findShots lib (baseDir s) (w\<lparr>fsys := fs\<rparr>))) = Some e \<longrightarrow>
      updateMux lib s (w\<lparr>fsys := fs\<rparr>) =
        Inr (s, glog_write (Error_find_failed (baseDir s) e)
                  (snd (findShots lib (baseDir s) (w\<lparr>fsys := fs\<rparr>)))) \<and>
      watch lib ((r, TimeAfter fs) # evs) s w =
        (case watch lib evs s
                (glog_write (Error_find_failed (baseDir s) e)
                   (snd (findShots lib (baseDir s) (w\<lparr>fsys := fs\<rparr>)))) of
           (st, ds, s', w'') \<Rightarrow> (st, watch_delay r # ds, s', w''))) \<and>
   (mux s \<noteq> None \<and>
    (\<forall>ev \<in> set evs. \<exists>fs. snd ev = TimeAfter fs \<and>
        snd (fst (findShots lib (baseDir s) \<lparr>fsys = fs, glog = []\<rparr>)) \<noteq> None) \<longrightarrow>
      fst (watch lib evs s w) = Running \<and> fst (snd (snd (watch lib evs s w))) = s)"
proof (intro conjI impI)
  assume fails: "snd (fst (findShots lib d w)) = Some e"
  let ?s0 = "\<lparr>baseDir = d, frontendMux = fm, mux = None\<rparr>"
  have e: "snd (fst (findShots lib (baseDir ?s0) w)) = Some e"
    using fails by simp
  show n: "newServer lib d fm w =
        Inr (\<lparr>baseDir = d, frontendMux = fm, mux = Some (table_nil lib fm)\<rparr>,
             glog_write (Error_find_failed d e) (snd (findShots lib d w)))"
    using updateMux_scan_failed [OF e] by (simp add: newServer_def)
  show "cmdServe lib (d, None) fm None w =
        Listening \<lparr>baseDir = d, frontendMux = fm, mux = Some (table_nil lib fm)\<rparr>
          (glog_write (Error_find_failed d e) (snd (findShots lib d w)))"
    using n by (simp add: cmdServe_def)
  show "glog (glog_write (Error_find_failed d e) (snd (findShots lib d w))) =
        glog (snd (findShots lib d w)) @ [Error_find_failed d e]"
    by (rule glog_glog_write)
next
  assume "cmdServe lib factorio fm listen w = ReturnedError err"
  then show "snd factorio = Some err \<or> listen = Some err"
    by (auto simp: cmdServe_def split: prod.splits option.splits sum.splits)
next
  assume a: "cmdServe lib factorio fm listen w = Panicked p"
  obtain dir ferr where f: "factorio = (dir, ferr)"
    by (cases factorio)
  show none: "snd factorio = None"
    using a f by (cases ferr) (simp_all add: cmdServe_def)
  let ?s0 = "\<lparr>baseDir = dir, frontendMux = fm, mux = None\<rparr>"
  have "updateMux lib ?s0 w = Inl p"
    using a f none
    by (auto simp: cmdServe_def newServer_def split: sum.splits option.splits)
  then have u: "snd (fst (findShots lib (baseDir ?s0) w)) = None \<and>
         fst (fst (findShots lib (baseDir ?s0) w)) \<noteq> None \<and>
         buildMux lib (frontendMux ?s0) (fst (fst (findShots lib (baseDir ?s0) w)))
           (snd (findShots lib (baseDir ?s0) w)) = Inl p"
    by (rule updateMux_Inl)
  show "snd (fst (findShots lib (fst factorio) w)) = None"
    using u f by simp
  show "fst (fst (findShots lib (fst factorio) w)) \<noteq> None"
    using u f by simp
  show "buildMux lib fm (fst (fst (findShots lib (fst factorio) w)))
        (snd (findShots lib (fst factorio) w)) = Inl p"
    using u f by simp
next
  assume "fst (watch lib evs s w) = Returned"
  then show "CtxDone \<in> snd ` set evs" by (rule watch_returned)
next
  assume a: "mux s \<noteq> None \<and> snd (fst (findShots lib (baseDir s) (w\<lparr>fsys := fs\<rparr>))) = Some e"
  then have e: "snd (fst (findShots lib (baseDir s) (w\<lparr>fsys := fs\<rparr>))) = Some e"
    by simp
  show step: "updateMux lib s (w\<lparr>fsys := fs\<rparr>) =
        Inr (s, glog_write (Error_find_failed (baseDir s) e)
                  (snd (findShots lib (baseDir s) (w\<lparr>fsys := fs\<rparr>))))"
    using updateMux_scan_failed [OF e] a by simp
  show "watch lib ((r, TimeAfter fs) # evs) s w =
        (case watch lib evs s
                (glog_write (Error_find_failed (baseDir s) e)
                   (snd (findShots lib (baseDir s) (w\<lparr>fsys := fs\<rparr>)))) of
           (st, ds, s', w'') \<Rightarrow> (st, watch_delay r # ds, s', w''))"
    using step
    by (cases "watch lib evs s
                (glog_write (Error_find_failed (baseDir s) e)
                   (snd (findShots lib (baseDir s) (w\<lparr>fsys := fs\<rparr>))))") simp
next
  assume a: "mux s \<noteq> None \<and>
    (\<forall>ev \<in> set evs. \<exists>fs. snd ev = TimeAfter fs \<and>
        snd (fst (findShots lib (baseDir s) \<lparr>fsys = fs, glog = []\<rparr>)) \<noteq> None)"
  then show "fst (watch lib evs s w) = Running"
    using watch_failing_scans by blast
  from a show "fst (snd (snd (watch lib evs s w))) = s"
    using watch_failing_scans by blast
qed

text \<open>
  The parts on concrete inputs: startup with an unresolvable root, where the log holds the
  error of the scan; startup when \<^verbatim>\<open>factorio.New\<close> fails; startup that panics, after a scan
  that succeeded; a loop that rescans once and is then cancelled; a loop whose only
  rescan fails before it is cancelled; a loop whose two rescans both fail.
\<close>

theorem scan_failure_never_fatal_witness:
  "snd (fst (findShots unix ''/out'' (start fs_gone))) =
     Some (EvalSymlinksError ''/out'' (OSError ''lstat: no such file or directory'')) \<and>
   (case cmdServe unix (''/out'', None) () None (start fs_gone) of
      Listening s w \<Rightarrow>
        mux s = Some (table_nil unix ()) \<and>
        glog w = [Error_find_failed ''/out''
                    (EvalSymlinksError ''/out'' (OSError ''lstat: no such file or directory''))]
    | ReturnedError err \<Rightarrow> False
    | Panicked p \<Rightarrow> False) \<and>
   cmdServe unix ([], Some (OSError ''factorio: no installation found'')) () None (start fs_two) =
     ReturnedError (OSError ''factorio: no installation found'') \<and>
   cmdServe unix (''/out'', None) () None (start fs_repeat) =
     Panicked (MultipleRegistrations ''/data/a/'') \<and>
   snd (fst (findShots unix ''/out'' (start fs_repeat))) = None \<and>
   fst (fst (findShots unix ''/out'' (start fs_repeat))) \<noteq> None \<and>
   fst (watch unix [(5, TimeAfter fs_two), (7, CtxDone)] server_two (start fs_two)) = Returned \<and>
   CtxDone \<in> snd ` set [(5 :: int64, TimeAfter fs_two), (7, CtxDone)] \<and>
   mux server_two \<noteq> None \<and>
   snd (fst (findShots unix (baseDir server_two) ((start fs_two)\<lparr>fsys := fs_gone\<rparr>))) =
     Some (EvalSymlinksError ''/out'' (OSError ''lstat: no such file or directory'')) \<and>
   fst (watch unix [(5, TimeAfter fs_gone), (7, CtxDone)] server_two (start fs_two)) = Returned \<and>
   fst (snd (snd (watch unix [(5, TimeAfter fs_gone), (7, CtxDone)] server_two (start fs_two)))) =
     server_two \<and>
   fst (watch unix [(5, TimeAfter fs_gone), (1999, TimeAfter fs_denied)] server_two (start fs_two)) = Running \<and>
   fst (snd (snd (watch unix [(5, TimeAfter fs_gone), (1999, TimeAfter fs_denied)] server_two (start fs_two)))) =
     server_two"
proof -
  let ?E = "EvalSymlinksError ''/out'' (OSError ''lstat: no such file or directory'')"
  have h1: "snd (fst (findShots unix ''/out'' (start fs_gone))) = Some ?E"
    by code_simp
  have l1: "glog (snd (findShots unix ''/out'' (start fs_gone))) = []"
    by code_simp
  have h2: "cmdServe unix ([], Some (OSError ''factorio: no installation found'')) () None (start fs_two) =
     ReturnedError (OSError ''factorio: no installation found'')"
    by (simp add: cmdServe_def)
  have "(case cmdServe unix (''/out'', None) () None (start fs_repeat) of
           Panicked p \<Rightarrow> p = MultipleRegistrations ''/data/a/''
         | ReturnedError err \<Rightarrow> False
         | Listening s w \<Rightarrow> False)"
    by code_simp
  then have hp: "cmdServe unix (''/out'', None) () None (start fs_repeat) =
     Panicked (MultipleRegistrations ''/data/a/'')"
    by (cases "cmdServe unix (''/out'', None) () None (start fs_repeat)") simp_all
  have h3: "fst (watch unix [(5, TimeAfter fs_two), (7, CtxDone)] server_two (start fs_two)) = Returned"
    by code_simp
  have h4: "mux server_two \<noteq> None \<and>
    (\<forall>ev \<in> set [(5 :: int64, TimeAfter fs_gone), (1999, TimeAfter fs_denied)]. \<exists>fs. snd ev = TimeAfter fs \<and>
        snd (fst (findShots unix (baseDir server_two) \<lparr>fsys = fs, glog = []\<rparr>)) \<noteq> None)"
  proof -
    have "snd (fst (findShots unix (baseDir server_two) \<lparr>fsys = fs_gone, glog = []\<rparr>)) \<noteq> None"
      by code_simp
    moreover have "snd (fst (findShots unix (baseDir server_two) \<lparr>fsys = fs_denied, glog = []\<rparr>)) \<noteq> None"
      by code_simp
    moreover have "mux server_two \<noteq> None"
      by code_simp
    ultimately show ?thesis by simp
  qed
  have h5: "mux server_two \<noteq> None \<and>
    snd (fst (findShots unix (baseDir server_two) ((start fs_two)\<lparr>fsys := fs_gone\<rparr>))) = Some ?E"
    by code_simp
  note c1 = scan_failure_never_fatal [THEN conjunct1, THEN mp, OF h1]
  have c1': "(case cmdServe unix (''/out'', None) () None (start fs_gone) of
      Listening s w \<Rightarrow>
        mux s = Some (table_nil unix ()) \<and> glog w = [Error_find_failed ''/out'' ?E]
    | ReturnedError err \<Rightarrow> False
    | Panicked p \<Rightarrow> False)"
    using c1 [of "()", THEN conjunct2, THEN conjunct1] l1 by (simp add: glog_glog_write)
  note cp = scan_failure_never_fatal
              [THEN conjunct2, THEN conjunct2, THEN conjunct1, THEN mp, OF hp]
  have cp1: "snd (fst (findShots unix ''/out'' (start fs_repeat))) = None"
    using cp [THEN conjunct2, THEN conjunct1] by simp
  have cp2: "fst (fst (findShots unix ''/out'' (start fs_repeat))) \<noteq> None"
    using cp [THEN conjunct2, THEN conjunct2, THEN conjunct1] by simp
  have c3: "CtxDone \<in> snd ` set [(5 :: int64, TimeAfter fs_two), (7, CtxDone)]"
    by (rule scan_failure_never_fatal
          [THEN conjunct2, THEN conjunct2, THEN conjunct2, THEN conjunct1, THEN mp, OF h3])
  note cs = scan_failure_never_fatal
              [THEN conjunct2, THEN conjunct2, THEN conjunct2, THEN conjunct2, THEN conjunct1,
               THEN mp, OF h5]
  have c5: "fst (watch unix [(5, TimeAfter fs_gone), (7, CtxDone)] server_two (start fs_two)) = Returned"
    using cs [of 5 "[(7, CtxDone)]", THEN conjunct2] by simp
  have c6: "fst (snd (snd (watch unix [(5, TimeAfter fs_gone), (7, CtxDone)] server_two (start fs_two)))) =
     server_two"
    using cs [of 5 "[(7, CtxDone)]", THEN conjunct2] by simp
  have c4: "fst (watch unix [(5, TimeAfter fs_gone), (1999, TimeAfter fs_denied)] server_two (start fs_two)) = Running \<and>
   fst (snd (snd (watch unix [(5, TimeAfter fs_gone), (1999, TimeAfter fs_denied)] server_two (start fs_two)))) =
     server_two"
    by (rule scan_failure_never_fatal
          [THEN conjunct2, THEN conjunct2, THEN conjunct2, THEN conjunct2, THEN conjunct2,
           THEN mp, OF h4])
  show ?thesis
    by (intro conjI) (rule h1 c1' h2 hp cp1 cp2 h3 c3 h5 [THEN conjunct1] h5 [THEN conjunct2] c5 c6
         c4 [THEN conjunct1] c4 [THEN conjunct2])+
qed

subsection \<open>C4: which entries are markers\<close>

text \<open>
  Claim C4 says that an entry is a marker exactly when it is a regular file whose base
  name is \<^verbatim>\<open>mapshot.json\<close>. The callback never reads the file information: here no entry is
  a regular file named \<^verbatim>\<open>mapshot.json\<close>, the only entry of that name is a directory, and
  the scan returns a descriptor for the directory that contains it.
\<close>

theorem directory_marker_counterexample:
  "filter (\<lambda>e. we_info e = Some Regular \<and> Base unix (we_path e) = ''mapshot.json'')
     (WalkCalls fs_dir_marker ''/out'') = [] \<and>
   fst (findShots unix ''/out'' (start fs_dir_marker)) =
     (Some [\<lparr>Name = ''a'', Path = ''/data/a/'', fsPath = ''/out/a''\<rparr>], None)"
  by code_simp

text \<open>
  Claim C4, amended: an entry is a marker exactly when its base name is \<^verbatim>\<open>mapshot.json\<close>,
  whatever kind of entry it is. When the root resolves and the walk meets no error, the
  scan returns no error and, in the order of the walk, one descriptor for the containing
  directory of every entry whose base name is \<^verbatim>\<open>mapshot.json\<close> and whose relative path can
  be computed, and no other descriptor; the returned slice is nil exactly when there is
  no such entry.
\<close>

theorem findShots_markers:
  assumes "EvalSymlinks (fsys w) d = (rd, None)"
    and "\<forall>e \<in> set (WalkCalls (fsys w) rd). we_err e = None"
  shows "snd (fst (findShots lib d w)) = None \<and>
         elems (fst (fst (findShots lib d w))) =
           map (\<lambda>e. \<lparr>Name = fst (Rel lib rd (Dir lib (we_path e))),
                      Path = ''/data/'' @ ToSlash lib (fst (Rel lib rd (Dir lib (we_path e)))) @ ''/'',
                      fsPath = Dir lib (we_path e)\<rparr>)
             (filter (\<lambda>e. Base lib (we_path e) = ''mapshot.json'' \<and>
                           snd (Rel lib rd (Dir lib (we_path e))) = None)
                (WalkCalls (fsys w) rd)) \<and>
         (fst (fst (findShots lib d w)) = None \<longleftrightarrow>
            filter (\<lambda>e. Base lib (we_path e) = ''mapshot.json'' \<and>
                          snd (Rel lib rd (Dir lib (we_path e))) = None)
              (WalkCalls (fsys w) rd) = [])"
proof -
  let ?mk = "\<lambda>e. \<lparr>Name = fst (Rel lib rd (Dir lib (we_path e))),
                   Path = ''/data/'' @ ToSlash lib (fst (Rel lib rd (Dir lib (we_path e)))) @ ''/'',
                   fsPath = Dir lib (we_path e)\<rparr>"
  let ?P = "\<lambda>e. Base lib (we_path e) = ''mapshot.json'' \<and> snd (Rel lib rd (Dir lib (we_path e))) = None"
  let ?es = "WalkCalls (fsys w) rd"
  have scan: "fst (findShots lib d w) = (foldl append_slice None (map ?mk (filter ?P ?es)), None)"
    by (rule findShots_walked [OF assms])
  have err: "snd (fst (findShots lib d w)) = None"
    using scan by simp
  have sh: "fst (fst (findShots lib d w)) = foldl append_slice None (map ?mk (filter ?P ?es))"
    using scan by simp
  have els: "elems (fst (fst (findShots lib d w))) = map ?mk (filter ?P ?es)"
    unfolding sh by (simp only: elems_foldl_append_slice elems_nil append_Nil)
  have nil: "fst (fst (findShots lib d w)) = None \<longleftrightarrow> filter ?P ?es = []"
    unfolding sh by (simp only: foldl_append_slice_nil map_is_Nil_conv simp_thms)
  show ?thesis
    using err els nil by (intro conjI)
qed

text \<open>The tree with a directory named \<^verbatim>\<open>mapshot.json\<close>, and the tree with two mapshots.\<close>

theorem findShots_markers_witness:
  "EvalSymlinks (fsys (start fs_dir_marker)) ''/out'' = (''/out'', None) \<and>
   list_all (\<lambda>e. we_err e = None) (WalkCalls (fsys (start fs_dir_marker)) ''/out'') \<and>
   snd (fst (findShots unix ''/out'' (start fs_dir_marker))) = None \<and>
   elems (fst (fst (findShots unix ''/out'' (start fs_dir_marker)))) =
     [\<lparr>Name = ''a'', Path = ''/data/a/'', fsPath = ''/out/a''\<rparr>] \<and>
   elems (fst (fst (findShots unix ''/out'' (start fs_two)))) = shots_two"
proof -
  have h1: "EvalSymlinks (fsys (start fs_dir_marker)) ''/out'' = (''/out'', None)"
    by code_simp
  have h2: "\<forall>e \<in> set (WalkCalls (fsys (start fs_dir_marker)) ''/out''). we_err e = None"
    by code_simp
  have h2': "list_all (\<lambda>e. we_err e = None) (WalkCalls (fsys (start fs_dir_marker)) ''/out'')"
    using h2 by (simp only: list_all_iff)
  have k1: "EvalSymlinks (fsys (start fs_two)) ''/out'' = (''/out'', None)"
    by code_simp
  have k2: "\<forall>e \<in> set (WalkCalls (fsys (start fs_two)) ''/out''). we_err e = None"
    by code_simp
  have v1: "map (\<lambda>e. \<lparr>Name = fst (Rel unix ''/out'' (Dir unix (we_path e))),
                      Path = ''/data/'' @ ToSlash unix (fst (Rel unix ''/out'' (Dir unix (we_path e)))) @ ''/'',
                      fsPath = Dir unix (we_path e)\<rparr>)
             (filter (\<lambda>e. Base unix (we_path e) = ''mapshot.json'' \<and>
                           snd (Rel unix ''/out'' (Dir unix (we_path e))) = None)
                (WalkCalls (fsys (start fs_dir_marker)) ''/out'')) =
            [\<lparr>Name = ''a'', Path = ''/data/a/'', fsPath = ''/out/a''\<rparr>]"
    by code_simp
  have v2: "map (\<lambda>e. \<lparr>Name = fst (Rel unix ''/out'' (Dir unix (we_path e))),
                      Path = ''/data/'' @ ToSlash unix (fst (Rel unix ''/out'' (Dir unix (we_path e)))) @ ''/'',
                      fsPath = Dir unix (we_path e)\<rparr>)
             (filter (\<lambda>e. Base unix (we_path e) = ''mapshot.json'' \<and>
                           snd (Rel unix ''/out'' (Dir unix (we_path e))) = None)
                (WalkCalls (fsys (start fs_two)) ''/out'')) = shots_two"
    by code_simp
  note a = findShots_markers [OF h1 h2, of unix]
  note b = findShots_markers [OF k1 k2, of unix]
  have c1: "snd (fst (findShots unix ''/out'' (start fs_dir_marker))) = None"
    by (rule a [THEN conjunct1])
  have c2: "elems (fst (fst (findShots unix ''/out'' (start fs_dir_marker)))) =
     [\<lparr>Name = ''a'', Path = ''/data/a/'', fsPath = ''/out/a''\<rparr>]"
    using a [THEN conjunct2, THEN conjunct1] v1 by (rule trans)
  have c3: "elems (fst (fst (findShots unix ''/out'' (start fs_two)))) = shots_two"
    using b [THEN conjunct2, THEN conjunct1] v2 by (rule trans)
  show ?thesis
    by (intro conjI) (rule h1 h2' c1 c2 c3)+
qed

subsection \<open>C5: the fields of a descriptor\<close>

text \<open>
  Claim C5 says that the name uses forward slashes on every platform and that the URL
  path is \<^verbatim>\<open>"/data/" + name + "/"\<close>. On Windows the name is what \<^verbatim>\<open>filepath.Rel\<close> returns,
  with backslashes; only the URL path goes through \<^verbatim>\<open>filepath.ToSlash\<close>.
\<close>

theorem windows_name_counterexample:
  "fst (findShots windows (winpath [''out'']) (start fs_win)) =
     (Some [\<lparr>Name = ''worlds'' @ [CHR 0x5C] @ ''alpha'', Path = ''/data/worlds/alpha/'',
             fsPath = winpath [''out'', ''worlds'', ''alpha'']\<rparr>], None) \<and>
   ''/data/worlds/alpha/'' \<noteq> ''/data/'' @ (''worlds'' @ [CHR 0x5C] @ ''alpha'') @ ''/''"
  by code_simp

text \<open>
  Claim C5, amended: every descriptor that the scan returns comes from an entry of the
  walk whose base name is \<^verbatim>\<open>mapshot.json\<close>; its name is the path of the entry's directory
  relative to the canonical root as \<^verbatim>\<open>filepath.Rel\<close> returns it, in the separators of the
  platform; its URL path is \<^verbatim>\<open>"/data/"\<close>, the name with every separator turned into a
  forward slash (so that no separator other than the forward slash is left in it), and
  \<^verbatim>\<open>"/"\<close>; where the separator is the forward slash, that is \<^verbatim>\<open>"/data/" + name + "/"\<close>.
\<close>

theorem findShots_descriptor_fields:
  assumes "EvalSymlinks (fsys w) d = (rd, None)"
    and "shot \<in> set (elems (fst (fst (findShots lib d w))))"
  shows "(\<exists>e \<in> set (WalkCalls (fsys w) rd).
            Base lib (we_path e) = ''mapshot.json'' \<and>
            Rel lib rd (Dir lib (we_path e)) = (Name shot, None) \<and>
            fsPath shot = Dir lib (we_path e)) \<and>
         Path shot = ''/data/'' @ ToSlash lib (Name shot) @ ''/'' \<and>
         (Separator lib = CHR ''/'' \<longrightarrow> Path shot = ''/data/'' @ Name shot @ ''/'') \<and>
         (Separator lib \<noteq> CHR ''/'' \<longrightarrow> Separator lib \<notin> set (ToSlash lib (Name shot)))"
proof -
  obtain e where e: "e \<in> set (WalkCalls (fsys w) rd)"
      "Base lib (we_path e) = ''mapshot.json''"
      "Rel lib rd (Dir lib (we_path e)) = (Name shot, None)"
      "fsPath shot = Dir lib (we_path e)"
      "Path shot = ''/data/'' @ ToSlash lib (Name shot) @ ''/''"
    using findShots_found [OF assms] by blast
  have unix_path: "Separator lib = CHR ''/'' \<longrightarrow> Path shot = ''/data/'' @ Name shot @ ''/''"
    using e(5) by (simp add: ToSlash_unix)
  have no_sep: "Separator lib \<noteq> CHR ''/'' \<longrightarrow> Separator lib \<notin> set (ToSlash lib (Name shot))"
    using ToSlash_no_separator by blast
  show ?thesis
    using e unix_path no_sep by blast
qed

text \<open>
  A descriptor found on Windows, where the name keeps its backslash and the URL path has
  none, and one found on Unix.
\<close>

theorem findShots_descriptor_fields_witness:
  "EvalSymlinks (fsys (start fs_win)) (winpath [''out'']) = (winpath [''out''], None) \<and>
   \<lparr>Name = ''worlds'' @ [CHR 0x5C] @ ''alpha'', Path = ''/data/worlds/alpha/'',
    fsPath = winpath [''out'', ''worlds'', ''alpha'']\<rparr>
     \<in> set (elems (fst (fst (findShots windows (winpath [''out'']) (start fs_win))))) \<and>
   ''/data/worlds/alpha/'' = ''/data/'' @ ToSlash windows (''worlds'' @ [CHR 0x5C] @ ''alpha'') @ ''/'' \<and>
   Separator windows \<notin> set (ToSlash windows (''worlds'' @ [CHR 0x5C] @ ''alpha'')) \<and>
   EvalSymlinks (fsys (start fs_two)) ''/out'' = (''/out'', None) \<and>
   \<lparr>Name = ''worlds/beta'', Path = ''/data/worlds/beta/'', fsPath = ''/out/worlds/beta''\<rparr>
     \<in> set (elems (fst (fst (findShots unix ''/out'' (start fs_two))))) \<and>
   Separator unix = CHR ''/'' \<and>
   ''/data/worlds/beta/'' = ''/data/'' @ ''worlds/beta'' @ ''/''"
proof -
  let ?wshot = "\<lparr>Name = ''worlds'' @ [CHR 0x5C] @ ''alpha'', Path = ''/data/worlds/alpha/'',
    fsPath = winpath [''out'', ''worlds'', ''alpha'']\<rparr>"
  let ?ushot = "\<lparr>Name = ''worlds/beta'', Path = ''/data/worlds/beta/'', fsPath = ''/out/worlds/beta''\<rparr>"
  have h1: "EvalSymlinks (fsys (start fs_win)) (winpath [''out'']) = (winpath [''out''], None)"
    by code_simp
  have h2: "?wshot \<in> set (elems (fst (fst (findShots windows (winpath [''out'']) (start fs_win)))))"
    by code_simp
  have k1: "EvalSymlinks (fsys (start fs_two)) ''/out'' = (''/out'', None)"
    by code_simp
  have k2: "?ushot \<in> set (elems (fst (fst (findShots unix ''/out'' (start fs_two)))))"
    by code_simp
  have wsep: "Separator windows \<noteq> CHR ''/''"
    by code_simp
  have usep: "Separator unix = CHR ''/''"
    by code_simp
  note a = findShots_descriptor_fields [OF h1 h2]
  note b = findShots_descriptor_fields [OF k1 k2]
  have c1: "''/data/worlds/alpha/'' = ''/data/'' @ ToSlash windows (''worlds'' @ [CHR 0x5C] @ ''alpha'') @ ''/''"
    using a [THEN conjunct2, THEN conjunct1] by simp
  have c2: "Separator windows \<notin> set (ToSlash windows (''worlds'' @ [CHR 0x5C] @ ''alpha''))"
    using a [THEN conjunct2, THEN conjunct2, THEN conjunct2, THEN mp, OF wsep] by simp
  have c3: "''/data/worlds/beta/'' = ''/data/'' @ ''worlds/beta'' @ ''/''"
    using b [THEN conjunct2, THEN conjunct2, THEN conjunct1, THEN mp, OF usep] by simp
  show ?thesis
    by (intro conjI) (rule h1 h2 c1 c2 k1 k2 usep c3)+
qed

subsection \<open>C6: an error during the walk\<close>

text \<open>
  Claim C6: when the callback is called with an error at an entry (the entries before it
  having none), the scan returns that error and the nil slice, whatever descriptors were
  appended before; and whenever the scan returns an error, the slice it returns is nil.
\<close>

theorem findShots_walk_error:
  "(EvalSymlinks (fsys w) d = (rd, None) \<and>
    WalkCalls (fsys w) rd = pre @ e # post \<and>
    (\<forall>x \<in> set pre. we_err x = None) \<and>
    we_err e = Some err \<longrightarrow>
      fst (findShots lib d w) = (None, Some err)) \<and>
   (snd (fst (findShots lib d w)) \<noteq> None \<longrightarrow> fst (fst (findShots lib d w)) = None)"
proof (intro conjI impI)
  assume a: "EvalSymlinks (fsys w) d = (rd, None) \<and>
    WalkCalls (fsys w) rd = pre @ e # post \<and>
    (\<forall>x \<in> set pre. we_err x = None) \<and>
    we_err e = Some err"
  show "fst (findShots lib d w) = (None, Some err)"
    using a findShots_aborted [of w d rd pre e post err lib] by (elim conjE)
next
  assume "snd (fst (findShots lib d w)) \<noteq> None"
  then show "fst (fst (findShots lib d w)) = None"
    by (rule findShots_error_nil)
qed

text \<open>
  The walk of \<open>fs_denied\<close> finds a marker in \<^verbatim>\<open>/out/a\<close> and then cannot read \<^verbatim>\<open>/out/b\<close>:
  the scan returns the error of \<^verbatim>\<open>/out/b\<close> and no descriptor.
\<close>

theorem findShots_walk_error_witness:
  "EvalSymlinks (fsys (start fs_denied)) ''/out'' = (''/out'', None) \<and>
   WalkCalls (fsys (start fs_denied)) ''/out'' =
     [entry ''/out'' Directory, entry ''/out/a'' Directory, entry ''/out/a/mapshot.json'' Regular] @
     \<lparr>we_path = ''/out/b'', we_info = Some Directory,
      we_err = Some (OSError ''open /out/b: permission denied'')\<rparr> #
     [entry ''/out/c'' Directory, entry ''/out/c/mapshot.json'' Regular] \<and>
   list_all (\<lambda>x. we_err x = None)
     [entry ''/out'' Directory, entry ''/out/a'' Directory, entry ''/out/a/mapshot.json'' Regular] \<and>
   fst (findShots unix ''/out'' (start fs_denied)) =
     (None, Some (OSError ''open /out/b: permission denied'')) \<and>
   snd (fst (findShots unix ''/out'' (start fs_gone))) \<noteq> None \<and>
   fst (fst (findShots unix ''/out'' (start fs_gone))) = None"
proof -
  let ?pre = "[entry ''/out'' Directory, entry ''/out/a'' Directory, entry ''/out/a/mapshot.json'' Regular]"
  let ?e = "\<lparr>we_path = ''/out/b'', we_info = Some Directory,
      we_err = Some (OSError ''open /out/b: permission denied'')\<rparr>"
  let ?post = "[entry ''/out/c'' Directory, entry ''/out/c/mapshot.json'' Regular]"
  have h1: "EvalSymlinks (fsys (start fs_denied)) ''/out'' = (''/out'', None)"
    by code_simp
  have h2: "WalkCalls (fsys (start fs_denied)) ''/out'' = ?pre @ ?e # ?post"
    by code_simp
  have h3: "\<forall>x \<in> set ?pre. we_err x = None"
    by code_simp
  have h3': "list_all (\<lambda>x. we_err x = None) ?pre"
    using h3 by (simp only: list_all_iff)
  have h4: "we_err ?e = Some (OSError ''open /out/b: permission denied'')"
    by simp
  have h5: "snd (fst (findShots unix ''/out'' (start fs_gone))) \<noteq> None"
    by code_simp
  have hyp: "EvalSymlinks (fsys (start fs_denied)) ''/out'' = (''/out'', None) \<and>
    WalkCalls (fsys (start fs_denied)) ''/out'' = ?pre @ ?e # ?post \<and>
    (\<forall>x \<in> set ?pre. we_err x = None) \<and>
    we_err ?e = Some (OSError ''open /out/b: permission denied'')"
    by (intro conjI) (rule h1 h2 h3 h4)+
  have c1: "fst (findShots unix ''/out'' (start fs_denied)) =
     (None, Some (OSError ''open /out/b: permission denied''))"
    by (rule findShots_walk_error [THEN conjunct1, THEN mp, OF hyp])
  have c2: "fst (fst (findShots unix ''/out'' (start fs_gone))) = None"
    by (rule findShots_walk_error [THEN conjunct2, THEN mp, OF h5])
  show ?thesis
    by (intro conjI) (rule h1 h2 h3' c1 h5 c2)+
qed

subsection \<open>C7: scanning twice\<close>

text \<open>
  Claim C7: the scan does not change the filesystem, and its result depends on nothing
  else in the world (not on the log written so far). So a second scan, run in the world
  that the first one left, returns the same slice and the same error as the first; and any
  two scans of the same filesystem return the same result, in particular the same set of
  (name, path) pairs.
\<close>

theorem findShots_idempotent:
  "fsys (snd (findShots lib d w)) = fsys w \<and>
   fst (findShots lib d (snd (findShots lib d w))) = fst (findShots lib d w) \<and>
   (fsys w' = fsys w \<longrightarrow>
      fst (findShots lib d w') = fst (findShots lib d w) \<and>
      set (map (\<lambda>shot. (Name shot, Path shot)) (elems (fst (fst (findShots lib d w'))))) =
      set (map (\<lambda>shot. (Name shot, Path shot)) (elems (fst (fst (findShots lib d w))))))"
proof (intro conjI impI)
  show "fsys (snd (findShots lib d w)) = fsys w"
    by (rule findShots_world)
  show "fst (findShots lib d (snd (findShots lib d w))) = fst (findShots lib d w)"
    by (rule findShots_log_free) (rule findShots_world)
next
  assume same: "fsys w' = fsys w"
  show eq: "fst (findShots lib d w') = fst (findShots lib d w)"
    by (rule findShots_log_free [OF same])
  show "set (map (\<lambda>shot. (Name shot, Path shot)) (elems (fst (fst (findShots lib d w'))))) =
      set (map (\<lambda>shot. (Name shot, Path shot)) (elems (fst (fst (findShots lib d w)))))"
    by (simp only: eq)
qed

text \<open>Two scans of \<open>fs_two\<close>, the second one after other lines were logged.\<close>

theorem findShots_idempotent_witness:
  "fsys \<lparr>fsys = fs_two, glog = [Info_looking ''/elsewhere'']\<rparr> = fsys (start fs_two) \<and>
   fst (findShots unix ''/out'' \<lparr>fsys = fs_two, glog = [Info_looking ''/elsewhere'']\<rparr>) =
     fst (findShots unix ''/out'' (start fs_two)) \<and>
   fst (findShots unix ''/out'' (start fs_two)) = (Some shots_two, None) \<and>
   glog (snd (findShots unix ''/out'' (start fs_two))) \<noteq> glog (start fs_two)"
proof -
  have h: "fsys \<lparr>fsys = fs_two, glog = [Info_looking ''/elsewhere'']\<rparr> = fsys (start fs_two)"
    by (simp add: start_def)
  have c: "fst (findShots unix ''/out'' \<lparr>fsys = fs_two, glog = [Info_looking ''/elsewhere'']\<rparr>) =
     fst (findShots unix ''/out'' (start fs_two))"
    by (rule findShots_idempotent [THEN conjunct2, THEN conjunct2, THEN mp, OF h, THEN conjunct1])
  have v: "fst (findShots unix ''/out'' (start fs_two)) = (Some shots_two, None)"
    by code_simp
  have l: "glog (snd (findShots unix ''/out'' (start fs_two))) \<noteq> glog (start fs_two)"
    by code_simp
  show ?thesis
    by (intro conjI) (rule h c v l)+
qed

subsection \<open>C8: the listing\<close>

text \<open>
  Claim C8: in every table that is built from a slice of descriptors, a request for
  \<^verbatim>\<open>/shots.json\<close> is answered with the header \<^verbatim>\<open>Content-Type: application/json\<close> and with
  these bytes, which are what \<^verbatim>\<open>json.Marshal\<close> returned: an opening brace, the quoted key
  \<^verbatim>\<open>all\<close>, a colon, then \<^verbatim>\<open>null\<close> for the nil slice and otherwise, between brackets and
  separated by commas, one object per descriptor in the order of the slice, and a closing
  brace. The object of a descriptor holds, between braces, the quoted key \<^verbatim>\<open>name\<close> with the
  quoted name and the quoted key \<^verbatim>\<open>path\<close> with the quoted path, each left out when its
  string is empty, and nothing else: no key besides \<^verbatim>\<open>name\<close> and \<^verbatim>\<open>path\<close>, and the listing
  does not depend on the \<^verbatim>\<open>fsPath\<close> fields.
\<close>

theorem buildMux_shots_json_listing:
  assumes "buildMux lib fm shots w = Inr (m, w')"
  shows "(let obj = (\<lambda>x.
                ''{'' @
                (if Name x = [] then [] else jsonString lib ''name'' @ '':'' @ jsonString lib (Name x)) @
                (if Name x = [] \<or> Path x = [] then [] else '','') @
                (if Path x = [] then [] else jsonString lib ''path'' @ '':'' @ jsonString lib (Path x)) @
                ''}'');
              body =
                ''{'' @ jsonString lib ''all'' @ '':'' @
                (case shots of
                   None \<Rightarrow> ''null''
                 | Some [] \<Rightarrow> ''[]''
                 | Some (x # xs) \<Rightarrow> ''['' @ obj x @ concat (map (\<lambda>y. '','' @ obj y) xs) @ '']'') @
                ''}''
          in ServeMux_ServeHTTP m ''/shots.json'' =
               Written [(''Content-Type'', ''application/json'')] body \<and>
             fst (json_Marshal lib (JObject [(''all'', shots_json shots)])) = Some body) \<and>
         (\<forall>x \<in> set (elems shots). \<exists>kvs.
            ShotInfo_json x = JObject kvs \<and> set (map fst kvs) \<subseteq> {''name'', ''path''} \<and>
            ShotInfo_json (x\<lparr>fsPath := p\<rparr>) = ShotInfo_json x) \<and>
         shots_json (map_option (map (\<lambda>x. x\<lparr>fsPath := f x\<rparr>)) shots) = shots_json shots"
proof -
  let ?q = "jsonString lib"
  let ?obj = "\<lambda>x.
                ''{'' @
                (if Name x = [] then [] else ?q ''name'' @ '':'' @ ?q (Name x)) @
                (if Name x = [] \<or> Path x = [] then [] else '','') @
                (if Path x = [] then [] else ?q ''path'' @ '':'' @ ?q (Path x)) @
                ''}''"
  let ?body = "''{'' @ ?q ''all'' @ '':'' @
                (case shots of
                   None \<Rightarrow> ''null''
                 | Some [] \<Rightarrow> ''[]''
                 | Some (x # xs) \<Rightarrow> ''['' @ ?obj x @ concat (map (\<lambda>y. '','' @ ?obj y) xs) @ '']'') @
                ''}''"
  have obj: "encode ?q (ShotInfo_json x) = ?obj x" for x
    by (simp add: ShotInfo_json_def)
  have arr: "encode ?q (shots_json shots) =
                (case shots of
                   None \<Rightarrow> ''null''
                 | Some [] \<Rightarrow> ''[]''
                 | Some (x # xs) \<Rightarrow> ''['' @ ?obj x @ concat (map (\<lambda>y. '','' @ ?obj y) xs) @ '']'')"
  proof (cases shots)
    case None
    then show ?thesis by (simp add: shots_json_def)
  next
    case (Some xs)
    show ?thesis
    proof (cases xs)
      case Nil
      then show ?thesis using Some by (simp add: shots_json_def)
    next
      case (Cons y ys)
      have "commas (map (encode ?q) (map ShotInfo_json (y # ys))) =
              ?obj y @ concat (map (\<lambda>z. '','' @ ?obj z) ys)"
        unfolding map_map comp_def obj by (rule commas_Cons)
      then show ?thesis using Some Cons by (simp add: shots_json_def)
    qed
  qed
  have enc: "encode ?q (JObject [(''all'', shots_json shots)]) = ?body"
    using arr by simp
  have reg: "map_of m ''/shots.json'' =
               Some (ShotsJSON (Some (encode ?q (JObject [(''all'', shots_json shots)]))))"
    by (rule buildMux_registers_listing [OF assms])
  have served: "ServeMux_ServeHTTP m ''/shots.json'' =
                  Written [(''Content-Type'', ''application/json'')] ?body"
    unfolding enc [symmetric]
    by (simp add: ServeMux_ServeHTTP_def ServeMux_match_def reg elems_def)
  have marshal: "fst (json_Marshal lib (JObject [(''all'', shots_json shots)])) = Some ?body"
    unfolding enc [symmetric] by (simp add: json_Marshal_def)
  have keys: "\<forall>x \<in> set (elems shots). \<exists>kvs.
            ShotInfo_json x = JObject kvs \<and> set (map fst kvs) \<subseteq> {''name'', ''path''} \<and>
            ShotInfo_json (x\<lparr>fsPath := p\<rparr>) = ShotInfo_json x"
    by (simp add: ShotInfo_json_def)
  have indep: "shots_json (map_option (map (\<lambda>x. x\<lparr>fsPath := f x\<rparr>)) shots) = shots_json shots"
    by (cases shots) (simp_all add: shots_json_def ShotInfo_json_def comp_def)
  show ?thesis
    unfolding Let_def using served marshal keys indep by (intro conjI)
qed

text \<open>
  The bytes served by the table of the two descriptors of \<open>fs_two\<close>, by the table of the
  nil slice, and by the table of one descriptor whose \<^verbatim>\<open>fsPath\<close> does not show.
\<close>

theorem buildMux_shots_json_listing_witness:
  \<open>(case buildMux unix () (Some shots_two) (start fs_two) of
      Inr (m, w') \<Rightarrow>
        ServeMux_ServeHTTP m ''/shots.json'' =
          Written [(''Content-Type'', ''application/json'')]
            ''{"all":[{"name":"worlds/alpha","path":"/data/worlds/alpha/"},{"name":"worlds/beta","path":"/data/worlds/beta/"}]}''
    | Inl p \<Rightarrow> False) \<and>
   (case buildMux unix () None (start fs_none) of
      Inr (m, w') \<Rightarrow>
        ServeMux_ServeHTTP m ''/shots.json'' =
          Written [(''Content-Type'', ''application/json'')] ''{"all":null}''
    | Inl p \<Rightarrow> False) \<and>
   (case buildMux unix () (Some [\<lparr>Name = ''a'', Path = ''/data/a/'', fsPath = ''/secret/place''\<rparr>])
           (start fs_none) of
      Inr (m, w') \<Rightarrow>
        ServeMux_ServeHTTP m ''/shots.json'' =
          Written [(''Content-Type'', ''application/json'')] ''{"all":[{"name":"a","path":"/data/a/"}]}''
    | Inl p \<Rightarrow> False)\<close>
proof -
  have q: "jsonString unix = quoted"
    by (simp add: unix_def platform_def)
  have k: \<open>quoted ''all'' = ''"all"''\<close> \<open>quoted ''name'' = ''"name"''\<close> \<open>quoted ''path'' = ''"path"''\<close>
    \<open>quoted ''worlds/alpha'' = ''"worlds/alpha"''\<close> \<open>quoted ''worlds/beta'' = ''"worlds/beta"''\<close>
    \<open>quoted ''/data/worlds/alpha/'' = ''"/data/worlds/alpha/"''\<close>
    \<open>quoted ''/data/worlds/beta/'' = ''"/data/worlds/beta/"''\<close>
    \<open>quoted ''a'' = ''"a"''\<close> \<open>quoted ''/data/a/'' = ''"/data/a/"''\<close>
    by code_simp+
  have "map_sum id fst (buildMux unix () (Some shots_two) (start fs_two)) = Inr table_two"
    by code_simp
  then obtain w1 where b1: "buildMux unix () (Some shots_two) (start fs_two) = Inr (table_two, w1)"
    by (cases "buildMux unix () (Some shots_two) (start fs_two)") auto
  have "map_sum id fst (buildMux unix () None (start fs_none)) = Inr (table_nil unix ())"
    by code_simp
  then obtain w2 where b2: "buildMux unix () None (start fs_none) = Inr (table_nil unix (), w2)"
    by (cases "buildMux unix () None (start fs_none)") auto
  let ?one = "[\<lparr>Name = ''a'', Path = ''/data/a/'', fsPath = ''/secret/place''\<rparr>]"
  have "case buildMux unix () (Some ?one) (start fs_none) of Inr (m, w') \<Rightarrow> True | Inl p \<Rightarrow> False"
    by code_simp
  then obtain m3 w3 where b3: "buildMux unix () (Some ?one) (start fs_none) = Inr (m3, w3)"
    by (cases "buildMux unix () (Some ?one) (start fs_none)") auto
  have c1: \<open>ServeMux_ServeHTTP table_two ''/shots.json'' =
          Written [(''Content-Type'', ''application/json'')]
            ''{"all":[{"name":"worlds/alpha","path":"/data/worlds/alpha/"},{"name":"worlds/beta","path":"/data/worlds/beta/"}]}''\<close>
    using buildMux_shots_json_listing [OF b1, THEN conjunct1]
    by (simp add: Let_def q k shots_two_def)
  have c2: \<open>ServeMux_ServeHTTP (table_nil unix ()) ''/shots.json'' =
          Written [(''Content-Type'', ''application/json'')] ''{"all":null}''\<close>
    using buildMux_shots_json_listing [OF b2, THEN conjunct1]
    by (simp add: Let_def q k)
  have c3: \<open>ServeMux_ServeHTTP m3 ''/shots.json'' =
          Written [(''Content-Type'', ''application/json'')] ''{"all":[{"name":"a","path":"/data/a/"}]}''\<close>
    using buildMux_shots_json_listing [OF b3, THEN conjunct1]
    by (simp add: Let_def q k)
  show ?thesis
    using c1 c2 c3 by (simp add: b1 b2 b3)
qed

subsection \<open>C9: the delay of the watcher\<close>



subsection \<open>C10: the published table is never nil\<close>

text \<open>
  Claim C10: when \<^verbatim>\<open>newServer\<close> returns, the table pointer of the server is not nil; when
  the first scan failed, it is the table built from no descriptor. Every \<^verbatim>\<open>updateMux\<close> that
  returns leaves a table that is not nil, and so does the watcher loop after any sequence
  of wake-ups; \<^verbatim>\<open>ServeHTTP\<close> on such a server does not dereference nil.
\<close>

theorem published_table_never_nil:
  "(newServer lib d fm w = Inr (s, w') \<longrightarrow>
      mux s \<noteq> None \<and> ServeHTTP s path \<noteq> Inl NilPointerDereference) \<and>
   (snd (fst (findShots lib d w)) \<noteq> None \<longrightarrow>
      map_sum id fst (newServer lib d fm w) =
        Inr \<lparr>baseDir = d, frontendMux = fm, mux = Some (table_nil lib fm)\<rparr> \<and>
      map_sum id fst (buildMux lib fm None w) = Inr (table_nil lib fm)) \<and>
   (updateMux lib s1 w1 = Inr (s2, w2) \<longrightarrow> mux s2 \<noteq> None) \<and>
   (mux s3 \<noteq> None \<longrightarrow>
      mux (fst (snd (snd (watch lib evs s3 w3)))) \<noteq> None \<and>
      ServeHTTP (fst (snd (snd (watch lib evs s3 w3)))) path \<noteq> Inl NilPointerDereference)"
proof (intro conjI impI)
  assume "newServer lib d fm w = Inr (s, w')"
  then show a: "mux s \<noteq> None"
    unfolding newServer_def by (rule updateMux_Inr(1))
  then show "ServeHTTP s path \<noteq> Inl NilPointerDereference"
    by (auto simp: ServeHTTP_def)
next
  assume fails: "snd (fst (findShots lib d w)) \<noteq> None"
  let ?s0 = "\<lparr>baseDir = d, frontendMux = fm, mux = None\<rparr>"
  obtain e where e: "snd (fst (findShots lib (baseDir ?s0) w)) = Some e"
    using fails by auto
  show "map_sum id fst (newServer lib d fm w) =
        Inr \<lparr>baseDir = d, frontendMux = fm, mux = Some (table_nil lib fm)\<rparr>"
    using updateMux_scan_failed [OF e] by (simp add: newServer_def)
  show "map_sum id fst (buildMux lib fm None w) = Inr (table_nil lib fm)"
    by (simp add: buildMux_nil)
next
  assume "updateMux lib s1 w1 = Inr (s2, w2)"
  then show "mux s2 \<noteq> None"
    by (rule updateMux_Inr(1))
next
  assume "mux s3 \<noteq> None"
  then show b: "mux (fst (snd (snd (watch lib evs s3 w3)))) \<noteq> None"
    by (rule watch_mux)
  then show "ServeHTTP (fst (snd (snd (watch lib evs s3 w3)))) path \<noteq> Inl NilPointerDereference"
    by (auto simp: ServeHTTP_def)
qed

text \<open>
  Construction on the tree with two mapshots and on an unresolvable root, a rescan, and
  the loop through a failing scan, an empty scan and a scan of the two mapshots.
\<close>

theorem published_table_never_nil_witness:
  "map_sum id fst (newServer unix ''/out'' () (start fs_two)) = Inr server_two \<and>
   mux server_two \<noteq> None \<and>
   ServeHTTP server_two ''/data/worlds/alpha/tile_0_0.png'' \<noteq> Inl NilPointerDereference \<and>
   snd (fst (findShots unix ''/out'' (start fs_gone))) \<noteq> None \<and>
   map_sum id fst (newServer unix ''/out'' () (start fs_gone)) =
     Inr \<lparr>baseDir = ''/out'', frontendMux = (), mux = Some (table_nil unix ())\<rparr> \<and>
   map_sum id fst (updateMux unix server_two (start fs_two)) = Inr server_two \<and>
   mux (fst (snd (snd (watch unix [(1, TimeAfter fs_gone), (2, TimeAfter fs_none), (3, TimeAfter fs_two)]
                         \<lparr>baseDir = ''/out'', frontendMux = (), mux = Some (table_nil unix ())\<rparr>
                         (start fs_gone))))) = Some table_two"
proof -
  let ?s0 = "\<lparr>baseDir = ''/out'', frontendMux = (), mux = Some (table_nil unix ())\<rparr>"
  let ?evs = "[(1 :: int64, TimeAfter fs_gone), (2, TimeAfter fs_none), (3, TimeAfter fs_two)]"
  have n: "map_sum id fst (newServer unix ''/out'' () (start fs_two)) = Inr server_two"
    by code_simp
  then obtain w' where n': "newServer unix ''/out'' () (start fs_two) = Inr (server_two, w')"
    by (cases "newServer unix ''/out'' () (start fs_two)") auto
  have c1: "mux server_two \<noteq> None"
    by (rule published_table_never_nil [THEN conjunct1, THEN mp, OF n', THEN conjunct1])
  have c2: "ServeHTTP server_two ''/data/worlds/alpha/tile_0_0.png'' \<noteq> Inl NilPointerDereference"
    by (rule published_table_never_nil [THEN conjunct1, THEN mp, OF n', THEN conjunct2])
  have h: "snd (fst (findShots unix ''/out'' (start fs_gone))) \<noteq> None"
    by code_simp
  have c3: "map_sum id fst (newServer unix ''/out'' () (start fs_gone)) = Inr ?s0"
    by (rule published_table_never_nil [THEN conjunct2, THEN conjunct1, THEN mp, OF h, THEN conjunct1])
  have u: "map_sum id fst (updateMux unix server_two (start fs_two)) = Inr server_two"
    by code_simp
  have l: "mux (fst (snd (snd (watch unix ?evs ?s0 (start fs_gone))))) = Some table_two"
    by code_simp
  show ?thesis
    by (intro conjI) (rule n c1 c2 h c3 u l)+
qed

end
